theory Spec2Isabelle
  imports Complex_Main "HOL-Library.Log_Nat"
begin

section \<open>Numbers, points and exceptions\<close>

text \<open>
  The TypeScript sources compute with JavaScript numbers, which are IEEE 754 doubles. A
  finite number is the rational that is its exact value. Array lengths and indices are
  natural numbers and integers; they are below \<open>2 ^ 32\<close> in JavaScript and so are exact as
  doubles, and so are their sums and differences with \<open>1\<close>.

  Rounding is represented in the arithmetic of the map component, which is the quotient and
  the product of the stop index, the sum and the halving of the bounds centre, and the
  arithmetic of the polyline decoder. \<open>double x\<close> is the double nearest to the rational
  \<open>x\<close>, ties going to the even significand, for a significand of 53 bits. \<open>exponent x\<close> is
  the \<open>e\<close> with \<open>2 ^ e \<le> x < 2 ^ (e + 1)\<close> for a positive \<open>x\<close>. The exponent range of
  \<open>double\<close> is not bounded: it is the rounding of the stop index, whose quotient and
  product lie between \<open>2 ^ - 32\<close> and \<open>2 ^ 32\<close> or are zero, far from the overflow at
  \<open>2 ^ 1024\<close> and the gradual underflow below \<open>2 ^ - 1022\<close>. The bounds centre and the
  decoder compute with numbers of any magnitude: their arithmetic is that of the section
  on numbers with infinities, which represents underflow, overflow and \<open>NaN\<close>.

  A geographic position \<open>[lat, lng]\<close> on which a stop is placed is a pair of finite
  numbers: stop placement copies positions and does not compute with them.

  A JavaScript exception is a value of \<open>exn\<close>: a \<open>TypeError\<close> or another \<open>Error\<close>
  instance, each with its message, or a thrown value that is no \<open>Error\<close>. A computation
  that may throw returns \<open>exn + 'a\<close> with \<open>Inl\<close> for the exception.
\<close>

definition round_half_even :: "rat \<Rightarrow> int" where
  "round_half_even y =
     (let n = \<lfloor>y\<rfloor>; d = y - of_int n
      in if d < 1 / 2 then n else if 1 / 2 < d then n + 1 else if even n then n else n + 1)"

definition exponent :: "rat \<Rightarrow> int" where
  "exponent x = (if 1 \<le> x then bitlen \<lfloor>x\<rfloor> - 1 else - bitlen (\<lceil>1 / x\<rceil> - 1))"

definition double :: "rat \<Rightarrow> rat" where
  "double x =
     (if x = 0 then 0
      else (let u = 2 powi (exponent \<bar>x\<bar> - 52)
            in sgn x * of_int (round_half_even (\<bar>x\<bar> / u)) * u))"

type_synonym point = "rat \<times> rat"

datatype exn = TypeError string | Error string | NonError

section \<open>Stop placement (\<open>stopMarkers\<close> in \<open>TripRouteMap.tsx\<close>)\<close>

text \<open>
  \<open>PlanTripResponse["stops"][number]\<close> is \<open>{ type; duration_minutes; description }\<close>;
  \<open>StopWithPosition\<close> adds \<open>position: [number, number]\<close>.
\<close>

record stop =
  type :: string
  duration_minutes :: rat
  description :: string

record stop_with_position = stop +
  position :: point

text \<open>
  \<open>path[idx]\<close> followed by the destructuring \<open>const [lat, lng] = ...\<close>: reading an array
  outside its bounds yields \<open>undefined\<close>, and destructuring \<open>undefined\<close> throws a
  \<open>TypeError\<close>.
\<close>

definition path_at :: "point list \<Rightarrow> int \<Rightarrow> exn + point" where
  "path_at path idx =
     (if 0 \<le> idx \<and> idx < int (length path) then Inr (path ! nat idx)
      else Inl (TypeError ''undefined is not iterable''))"

text \<open>
  The two lines
  \<^verbatim>\<open>const t = (index + 1) / (stops.length + 1);\<close>
  \<^verbatim>\<open>const idx = Math.min(path.length - 1, Math.floor(t * (path.length - 1)));\<close>
  with \<open>n = stops.length\<close> and \<open>len = path.length\<close>. The quotient and the product are
  rounded; the sums, the difference, \<open>Math.floor\<close> and \<open>Math.min\<close> are exact.
\<close>

definition stopIndex :: "nat \<Rightarrow> nat \<Rightarrow> nat \<Rightarrow> int" where
  "stopIndex index n len =
     (let t = double ((of_nat index + 1) / (of_nat n + 1))
      in min (int len - 1) \<lfloor>double (t * (of_nat len - 1))\<rfloor>)"

definition placeStop :: "point list \<Rightarrow> nat \<Rightarrow> nat \<times> stop \<Rightarrow> exn + stop_with_position" where
  "placeStop path n = (\<lambda>(index, stop).
     (case path_at path (stopIndex index n (length path)) of
        Inl e \<Rightarrow> Inl e
      | Inr (lat, lng) \<Rightarrow>
          Inr \<lparr>type = type stop, duration_minutes = duration_minutes stop,
               description = description stop, position = (lat, lng)\<rparr>))"

text \<open>\<open>Array.prototype.map\<close> with a callback that may throw: the first exception aborts the map.\<close>

fun map_exn :: "('a \<Rightarrow> exn + 'b) \<Rightarrow> 'a list \<Rightarrow> exn + 'b list" where
  "map_exn f [] = Inr []"
| "map_exn f (x # xs) =
     (case f x of
        Inl e \<Rightarrow> Inl e
      | Inr y \<Rightarrow> (case map_exn f xs of Inl e \<Rightarrow> Inl e | Inr ys \<Rightarrow> Inr (y # ys)))"

text \<open>
  The \<open>stopMarkers\<close> memo. \<open>stops\<close> is an optional property, \<open>None\<close> when it is absent;
  \<open>enumerate 0\<close> pairs every stop with the \<open>index\<close> that \<open>map\<close> passes to its callback.
\<close>

definition stopMarkers :: "stop list option \<Rightarrow> point list \<Rightarrow> exn + stop_with_position list" where
  "stopMarkers stops path =
     (case stops of
        None \<Rightarrow> Inr []
      | Some ss \<Rightarrow>
          if ss = [] \<or> length path < 2 then Inr []
          else map_exn (placeStop path (length ss)) (enumerate 0 ss))"

text \<open>The stop that \<open>placeStop\<close> builds once the vertex is known.\<close>

definition placed_at :: "point list \<Rightarrow> nat \<Rightarrow> nat \<times> stop \<Rightarrow> stop_with_position" where
  "placed_at path n = (\<lambda>(index, stop).
     \<lparr>type = type stop, duration_minutes = duration_minutes stop,
      description = description stop,
      position = path ! nat (stopIndex index n (length path))\<rparr>)"


text \<open>
  Example data: the three vertices that the reference polyline of the specification
  decodes to, which are the doubles nearest to \<open>(38.5, -120.2)\<close>, \<open>(40.7, -120.95)\<close> and
  \<open>(43.252, -126.453)\<close>, and a list of three stops.
\<close>

definition reference_path :: "point list" where
  "reference_path =
     [(double (385 / 10), double (- 1202 / 10)), (double (407 / 10), double (- 12095 / 100)),
      (double (43252 / 1000), double (- 126453 / 1000))]"

definition example_stops :: "stop list" where
  "example_stops =
     [\<lparr>type = ''fuel_stop'', duration_minutes = 30, description = ''Fuel''\<rparr>,
      \<lparr>type = ''break'', duration_minutes = 30, description = ''Rest''\<rparr>,
      \<lparr>type = ''fuel_stop'', duration_minutes = 30, description = ''Fuel''\<rparr>]"

section \<open>Numbers with infinities and \<open>NaN\<close>\<close>

text \<open>
  Where the sources compute with numbers that may grow without bound or start at
  \<open>Infinity\<close>, a number is a finite number, one of the two infinities, or \<open>NaN\<close>, and the
  full range of a double is represented. \<open>nearest x\<close> is the double nearest to the
  rational \<open>x\<close> when the exponent is not bounded above: below \<open>2 ^ - 1022\<close> the doubles are
  the multiples of \<open>2 ^ - 1074\<close> (gradual underflow), from there on they have a
  significand of 53 bits, which is \<open>double\<close>; ties go to the even neighbour.
  \<open>round_number x\<close> is the result of an operation whose exact value is \<open>x\<close>: it overflows
  to an infinity when \<open>nearest x\<close> reaches \<open>2 ^ 1024\<close>. A rational \<open>x\<close> is the value of a
  double when \<open>round_number x = Finite x\<close>. The two zeros of IEEE arithmetic are one value:
  no operation of these sources tells them apart.
\<close>

datatype number = Finite rat | Infinity | NegInfinity | NaN

text \<open>
  A position \<open>[lat, lng]\<close> whose coordinates are such numbers, and the position with
  finite coordinates among them.
\<close>

type_synonym latlng = "number \<times> number"

definition finite_point :: "point \<Rightarrow> latlng" where
  "finite_point = (\<lambda>(a, b). (Finite a, Finite b))"

definition nearest :: "rat \<Rightarrow> rat" where
  "nearest x =
     (if \<bar>x\<bar> < 2 powi (- 1022)
      then sgn x * of_int (round_half_even (\<bar>x\<bar> / 2 powi (- 1074))) * 2 powi (- 1074)
      else double x)"

definition round_number :: "rat \<Rightarrow> number" where
  "round_number x =
     (let y = nearest x
      in if 2 ^ 1024 \<le> y then Infinity else if y \<le> - (2 ^ 1024) then NegInfinity else Finite y)"

definition is_double :: "rat \<Rightarrow> bool" where
  "is_double x \<longleftrightarrow> round_number x = Finite x"

text \<open>The comparison \<open>a < b\<close>, which is false whenever an operand is \<open>NaN\<close>.\<close>

fun less_number :: "number \<Rightarrow> number \<Rightarrow> bool" where
  "less_number (Finite a) (Finite b) = (a < b)"
| "less_number (Finite a) Infinity = True"
| "less_number NegInfinity (Finite b) = True"
| "less_number NegInfinity Infinity = True"
| "less_number _ _ = False"

text \<open>The unary minus \<open>-a\<close>, which is exact.\<close>

fun neg_number :: "number \<Rightarrow> number" where
  "neg_number (Finite a) = Finite (- a)"
| "neg_number Infinity = NegInfinity"
| "neg_number NegInfinity = Infinity"
| "neg_number NaN = NaN"

text \<open>The sum \<open>a + b\<close>; the difference \<open>a - b\<close> is \<open>a + (-b)\<close>.\<close>

fun add_number :: "number \<Rightarrow> number \<Rightarrow> number" where
  "add_number (Finite a) (Finite b) = round_number (a + b)"
| "add_number NaN _ = NaN"
| "add_number _ NaN = NaN"
| "add_number Infinity NegInfinity = NaN"
| "add_number NegInfinity Infinity = NaN"
| "add_number Infinity _ = Infinity"
| "add_number _ Infinity = Infinity"
| "add_number NegInfinity _ = NegInfinity"
| "add_number _ NegInfinity = NegInfinity"

text \<open>
  The product \<open>a * b\<close>: an infinity times zero is \<open>NaN\<close>, and any other product with an
  infinity is the infinity of the product's sign.
\<close>

fun mul_number :: "number \<Rightarrow> number \<Rightarrow> number" where
  "mul_number (Finite a) (Finite b) = round_number (a * b)"
| "mul_number NaN _ = NaN"
| "mul_number _ NaN = NaN"
| "mul_number x y =
     (if x = Finite 0 \<or> y = Finite 0 then NaN
      else if less_number (Finite 0) x = less_number (Finite 0) y then Infinity
      else NegInfinity)"

text \<open>The quotient \<open>a / 2\<close>.\<close>

fun half_number :: "number \<Rightarrow> number" where
  "half_number (Finite a) = round_number (a / 2)"
| "half_number x = x"

text \<open>
  The test \<open>a & 1\<close>: the operand is converted to a 32-bit integer, which truncates a finite
  number towards zero and reduces it modulo \<open>2 ^ 32\<close>, and takes an infinity and \<open>NaN\<close> to
  \<open>0\<close>; the lowest bit of the result is the parity of the truncated number.
\<close>

fun odd_number :: "number \<Rightarrow> bool" where
  "odd_number (Finite a) = odd \<lfloor>\<bar>a\<bar>\<rfloor>"
| "odd_number x = False"

section \<open>The decoded path (\<open>path\<close> in \<open>TripRouteMap.tsx\<close>)\<close>

text \<open>
  \<open>RoutePolyline\<close> is \<open>[number, number][] | string\<close>: a list of \<open>[lng, lat]\<close> pairs, or an
  encoded polyline. The coordinates of a decoded path are numbers that may be infinite
  or \<open>NaN\<close>.
\<close>

datatype RoutePolyline = Coordinates "(number \<times> number) list" | Encoded string

text \<open>
  Modelled from the spec: one number of the encoding, read by \<open>polyline.decode\<close> of the
  package \<open>@mapbox/polyline\<close>, which the component imports and which is not among the
  sources. The specification describes the decoder as the standard polyline
  decompression: five bits per character, a continuation bit, zig-zag sign decoding, and
  the scale factor \<open>1e5\<close>. It does not say what the decoder does at the end of the
  string; the model follows the loop of the package's decoder,
  \<^verbatim>\<open>do { byte = str.charCodeAt(index++) - 63; result += (byte & 0x1f) * shift; shift *= 32; }\<close>
  \<^verbatim>\<open>while (byte >= 0x20);\<close>
  started with \<open>shift = 1\<close> and \<open>result = 0\<close>, in the arithmetic of JavaScript numbers. The
  loop has no test for the end of the string and no failure path: \<open>charCodeAt\<close> past the
  end is \<open>NaN\<close>, whose low bits are \<open>0\<close> and which is not \<open>>= 0x20\<close>, so the number ends
  there. The low five bits of \<open>byte\<close> are \<open>byte mod 32\<close>, also for a character below \<open>63\<close>.
  The function returns the number and the rest of the string. A character is a code unit
  below \<open>256\<close>.
\<close>

fun read_number :: "number \<Rightarrow> number \<Rightarrow> string \<Rightarrow> number \<times> string" where
  "read_number shift result [] = (add_number result (mul_number (Finite 0) shift), [])"
| "read_number shift result (c # cs) =
     (let byte = int (of_char c) - 63;
          result' = add_number result (mul_number (Finite (of_int (byte mod 32))) shift);
          shift' = mul_number shift (Finite 32)
      in if 32 \<le> byte then read_number shift' result' cs else (result', cs))"

text \<open>
  Modelled from the spec: the zig-zag decoding of a number to a signed difference, that is
  \<open>(result & 1) ? ((-result - 1) / 2) : (result / 2)\<close>, in \<open>polyline.decode\<close>, which is not
  among the sources.
\<close>

definition zigzag :: "number \<Rightarrow> number" where
  "zigzag result =
     (if odd_number result then half_number (add_number (neg_number result) (Finite (- 1)))
      else half_number result)"

text \<open>
  Modelled from the spec: the quotient \<open>lat / factor\<close> with the scale factor \<open>1e5\<close> of
  \<open>polyline.decode\<close>, which is not among the sources.
\<close>

fun div_factor :: "number \<Rightarrow> number" where
  "div_factor (Finite a) = round_number (a / 100000)"
| "div_factor x = x"

text \<open>
  Modelled from the spec: the loop \<open>while (index < str.length)\<close> of \<open>polyline.decode\<close>,
  which is not among the sources, from the running latitude and longitude: each round
  reads two numbers, adds their differences to the latitude and the longitude, and
  appends the scaled pair to the result.
\<close>

function decode_from :: "number \<Rightarrow> number \<Rightarrow> string \<Rightarrow> latlng list" where
  "decode_from lat lng s =
     (if s = [] then []
      else (case read_number (Finite 1) (Finite 0) s of
              (a, s1) \<Rightarrow>
                (case read_number (Finite 1) (Finite 0) s1 of
                   (b, s2) \<Rightarrow>
                     (let lat' = add_number lat (zigzag a); lng' = add_number lng (zigzag b)
                      in (div_factor lat', div_factor lng') # decode_from lat' lng' s2))))"
  by pat_completeness auto
termination
proof (relation "measure (\<lambda>(lat, lng, s). length s)")
  show "wf (measure (\<lambda>(lat, lng, s). length s))" by simp
next
  fix lat lng a b lat' lng' :: number and s s1 s2 :: string
  assume "s \<noteq> []" and "(a, s1) = read_number (Finite 1) (Finite 0) s"
    and "(b, s2) = read_number (Finite 1) (Finite 0) s1"
  moreover have "length (snd (read_number shift result t)) \<le> length t - 1"
    for shift result t
  proof (induction t arbitrary: shift result)
    case Nil
    show ?case by simp
  next
    case (Cons c cs)
    have "length (snd (read_number sh r cs)) \<le> length cs" for sh r
      using Cons [of sh r] by linarith
    then show ?case
      by (simp add: Let_def)
  qed
  ultimately have "length s1 \<le> length s - 1" and "length s2 \<le> length s1 - 1"
    by (metis snd_conv)+
  then show "((lat', lng', s2), (lat, lng, s)) \<in> measure (\<lambda>(lat, lng, s). length s)"
    using \<open>s \<noteq> []\<close> by (cases s) simp_all
qed

declare decode_from.simps [simp del]

text \<open>
  Modelled from the spec: \<open>polyline.decode\<close>, which is not among the sources, as the
  loop above started at latitude and longitude zero. It returns for every string.
\<close>

definition polyline_decode :: "string \<Rightarrow> exn + latlng list" where
  "polyline_decode s = Inr (decode_from (Finite 0) (Finite 0) s)"

text \<open>
  The \<open>path\<close> memo of the component, over the decoder it calls: \<open>null\<close> or an absent
  property gives the empty path, a list of pairs is mapped with its coordinates swapped,
  and a string is decoded inside \<open>try\<close>, with the empty path for whatever the decoder
  throws. The result is \<open>Inr\<close> a path, or \<open>Inl\<close> an exception that escapes the memo.
\<close>

definition path_memo :: "(string \<Rightarrow> exn + latlng list) \<Rightarrow> RoutePolyline option \<Rightarrow> exn + latlng list" where
  "path_memo decode encodedPolyline =
     (case encodedPolyline of
        None \<Rightarrow> Inr []
      | Some (Coordinates cs) \<Rightarrow> Inr (map (\<lambda>(lng, lat). (lat, lng)) cs)
      | Some (Encoded s) \<Rightarrow> (case decode s of Inl e \<Rightarrow> Inr [] | Inr ps \<Rightarrow> Inr ps))"

text \<open>
  Example data: the reference polyline of the specification; the same string cut short
  inside its last number; a string of 205 characters that all announce a continuation;
  and a decoder that throws on every string but the empty one.
\<close>

definition reference_polyline :: string where
  "reference_polyline = ''_p~iF~ps|U_ulLnnqC_mqNvxq`@''"


definition endless_polyline :: string where
  "endless_polyline = replicate 205 (CHR ''~'')"


section \<open>Bounds centre (\<open>getBoundsCenter\<close> in \<open>TripRouteMap.tsx\<close>)\<close>

text \<open>
  The points are pairs of numbers, which the function does not validate: a coordinate
  may be of any magnitude, infinite or \<open>NaN\<close>. The accumulators of the loop start at
  \<open>Infinity\<close> and \<open>-Infinity\<close>; \<open>lat > maxLat\<close> is \<open>maxLat < lat\<close>. The literals of the
  default centre denote the doubles nearest to them.
\<close>

definition DEFAULT_CENTER :: latlng where
  "DEFAULT_CENTER =
     (round_number (4069959172666929 / 100000000000000),
      round_number (- 10304816033981959 / 100000000000000))"

text \<open>The body of the \<open>for\<close> loop, on the accumulators \<open>(minLat, maxLat, minLng, maxLng)\<close>.\<close>

definition bounds_step ::
  "number \<times> number \<times> number \<times> number \<Rightarrow> latlng \<Rightarrow> number \<times> number \<times> number \<times> number" where
  "bounds_step = (\<lambda>(minLat, maxLat, minLng, maxLng) (lat, lng).
     (if less_number lat minLat then lat else minLat,
      if less_number maxLat lat then lat else maxLat,
      if less_number lng minLng then lng else minLng,
      if less_number maxLng lng then lng else maxLng))"

definition getBoundsCenter :: "latlng list \<Rightarrow> latlng" where
  "getBoundsCenter points =
     (if length points = 0 then DEFAULT_CENTER
      else (case foldl bounds_step (Infinity, NegInfinity, Infinity, NegInfinity) points of
              (minLat, maxLat, minLng, maxLng) \<Rightarrow>
                (half_number (add_number minLat maxLat), half_number (add_number minLng maxLng))))"

text \<open>
  Example data: two points whose coordinates are finite doubles; a point whose latitude
  is the double \<open>2 ^ 1023\<close>; and a point whose coordinates are \<open>NaN\<close>.
\<close>

definition example_points :: "point list" where
  "example_points = [(1 / 2, 1), (3 / 2, 1 / 4)]"

definition distant_points :: "latlng list" where
  "distant_points = [(Finite (2 ^ 1023), Finite 0)]"

definition undefined_points :: "latlng list" where
  "undefined_points = [(NaN, NaN)]"

section \<open>Places search (\<open>searchPlaces\<close> in \<open>placesService.ts\<close>)\<close>

record PlaceSuggestion =
  id' :: string
  label :: string
  lat :: rat
  lng :: rat

text \<open>
  \<open>String.prototype.trim\<close> removes white space and line terminators from both ends. A
  string is a list of 8-bit characters here, so the white space of ECMAScript that is
  represented is TAB, LF, VT, FF, CR, SP and NBSP.
\<close>

definition is_space :: "char \<Rightarrow> bool" where
  "is_space c = (c \<in> set [CHR 0x09, CHR 0x0A, CHR 0x0B, CHR 0x0C, CHR 0x0D, CHR 0x20, CHR 0xA0])"

definition trim :: "string \<Rightarrow> string" where
  "trim s = rev (dropWhile is_space (rev (dropWhile is_space s)))"

text \<open>
  The response body is untyped (\<open>any\<close>) in the source. The value of its \<open>error\<close> field is
  only tested for truthiness, so it is a JSON value whose objects and arrays are not
  looked into. A feature carries the fields that \<open>searchPlaces\<close> reads, each \<open>None\<close> when
  the optional chain yields \<open>null\<close> or \<open>undefined\<close>; coordinates are a pair
  \<open>[lng, lat]\<close>, labels and identifiers are strings.
\<close>

datatype json = JNull | JBool bool | JNum rat | JStr string | JObject

fun truthy :: "json option \<Rightarrow> bool" where
  "truthy None = False"
| "truthy (Some JNull) = False"
| "truthy (Some (JBool b)) = b"
| "truthy (Some (JNum n)) = (n \<noteq> 0)"
| "truthy (Some (JStr s)) = (s \<noteq> [])"
| "truthy (Some JObject) = True"

record feature =
  coordinates :: "(rat \<times> rat) option"
  properties_label :: "string option"
  properties_name :: "string option"
  properties_id :: "string option"
  properties_gid :: "string option"

record data =
  data_error :: "json option"
  data_features :: "feature list option"

text \<open>
  The outcome of \<open>await axios.get(...)\<close>: the promise is fulfilled with a response whose
  \<open>data\<close> may be \<open>null\<close>, or it is rejected with an exception.
\<close>

datatype response = Fulfilled "data option" | Rejected exn

text \<open>\<open>String(index)\<close>: the decimal digits of an array index.\<close>

function show_nat :: "nat \<Rightarrow> string" where
  "show_nat n =
     (if n < 10 then [char_of (48 + n)] else show_nat (n div 10) @ [char_of (48 + n mod 10)])"
  by pat_completeness auto
termination
  by (relation "measure (\<lambda>n. n)") auto

declare show_nat.simps [simp del]

text \<open>The callback of \<open>features.map\<close>, with the defaults of the \<open>??\<close> chains.\<close>

definition to_suggestion :: "string \<Rightarrow> nat \<times> feature \<Rightarrow> PlaceSuggestion" where
  "to_suggestion query = (\<lambda>(index, feature).
     (let coords = (case coordinates feature of None \<Rightarrow> (0, 0) | Some c \<Rightarrow> c);
          (lng, lat) = coords;
          label = (case properties_label feature of
                     Some l \<Rightarrow> l
                   | None \<Rightarrow> (case properties_name feature of Some n \<Rightarrow> n | None \<Rightarrow> query));
          id = (case properties_id feature of
                  Some i \<Rightarrow> i
                | None \<Rightarrow> (case properties_gid feature of Some g \<Rightarrow> g | None \<Rightarrow> show_nat index))
      in \<lparr>id' = id, label = label, lat = lat, lng = lng\<rparr>))"

text \<open>
  \<open>searchPlaces\<close> in two parts. \<open>searchPlaces_request\<close> is the HTTP request that a call
  issues: none for a query of fewer than three trimmed characters, otherwise a GET with
  the parameter \<open>q = query.trim()\<close>. \<open>searchPlaces\<close> is the value the call settles with,
  given the outcome of that request; the outcome is not looked at when no request was
  issued. The \<open>catch\<close> block logs and rethrows.
\<close>

definition searchPlaces_request :: "string \<Rightarrow> string option" where
  "searchPlaces_request query = (if length (trim query) < 3 then None else Some (trim query))"

definition searchPlaces :: "string \<Rightarrow> response \<Rightarrow> exn + PlaceSuggestion list" where
  "searchPlaces query response =
     (if length (trim query) < 3 then Inr []
      else (case response of
              Rejected e \<Rightarrow> Inl e
            | Fulfilled d \<Rightarrow>
                if truthy (case d of None \<Rightarrow> None | Some b \<Rightarrow> data_error b) then Inr []
                else (let features = (case (case d of None \<Rightarrow> None | Some b \<Rightarrow> data_features b) of
                                        Some fs \<Rightarrow> fs
                                      | None \<Rightarrow> [])
                      in Inr (map (to_suggestion query) (enumerate 0 features)))))"

section \<open>The address search input (\<open>AddressSearchInput\<close>)\<close>

text \<open>
  The state of one mounted component: the four \<open>useState\<close> cells that the claims are
  about, the \<open>justSelectedRef\<close> cell, and what the component has set in motion:
  \<^item> \<open>timer\<close>: the pending \<open>setTimeout\<close> of the effect, with the \<open>query\<close> its callback
    closes over;
  \<^item> \<open>effect_query\<close>: the value of \<open>query\<close> at the last run of the effect, which React
    compares with the current one to decide whether the effect runs again
    (\<open>fetchSuggestions\<close>, the other dependency, never changes);
  \<^item> \<open>inflight\<close>: the arguments of the \<open>searchPlaces\<close> calls that have not settled,
    oldest first;
  \<^item> \<open>requests\<close>: the \<open>q\<close> parameters of the HTTP requests issued so far;
  \<^item> \<open>selected\<close>: the points passed to \<open>onLocationSelected\<close> so far.
  The dropdown geometry is left out.
\<close>

record state =
  query :: string
  suggestions :: "PlaceSuggestion list"
  "open" :: bool
  error :: "string option"
  justSelectedRef :: bool
  timer :: "string option"
  effect_query :: string
  inflight :: "string list"
  requests :: "string list"
  selected :: "point list"

text \<open>The state after mounting: the effect has run once, on the empty query.\<close>

definition init :: state where
  "init = \<lparr>query = [], suggestions = [], open = False, error = None, justSelectedRef = False,
           timer = None, effect_query = [], inflight = [], requests = [], selected = []\<rparr>"

text \<open>
  The body of the effect on \<open>[query, fetchSuggestions]\<close>, up to the point where it
  returns; the callback of its timer is \<open>timeout\<close> below.
\<close>

definition effect :: "state \<Rightarrow> state" where
  "effect s =
     (if justSelectedRef s then s\<lparr>justSelectedRef := False\<rparr>
      else if length (trim (query s)) < 3 then s\<lparr>suggestions := [], error := None, open := False\<rparr>
      else s\<lparr>timer := Some (query s)\<rparr>)"

text \<open>
  The cleanup \<open>() => clearTimeout(handle)\<close>. A run of the effect that returns early
  registers no cleanup; no timer is pending then, since the cleanup of the run before
  it has cleared the timer, so clearing is right in every case.
\<close>

definition cleanup :: "state \<Rightarrow> state" where
  "cleanup s = s\<lparr>timer := None\<rparr>"

text \<open>
  After a handler has run React renders again and, when \<open>query\<close> differs from its value
  at the last run of the effect, runs the cleanup and then the effect.
\<close>

definition commit :: "state \<Rightarrow> state" where
  "commit s =
     (if query s = effect_query s then s
      else (effect (cleanup s))\<lparr>effect_query := query s\<rparr>)"

text \<open>The handlers \<open>onChange\<close>, \<open>onFocus\<close> and \<open>handleSelect\<close>.\<close>

definition onChange :: "state \<Rightarrow> string \<Rightarrow> state" where
  "onChange s v = s\<lparr>query := v\<rparr>"

definition onFocus :: "state \<Rightarrow> state" where
  "onFocus s = (if suggestions s \<noteq> [] then s\<lparr>open := True\<rparr> else s)"

definition handleSelect :: "state \<Rightarrow> PlaceSuggestion \<Rightarrow> state" where
  "handleSelect s suggestion =
     s\<lparr>justSelectedRef := True, query := label suggestion, suggestions := [], open := False,
       error := None, selected := selected s @ [(lat suggestion, lng suggestion)]\<rparr>"

text \<open>
  \<open>fetchSuggestions\<close> in two parts, before and after its \<open>await\<close>: the call of
  \<open>searchPlaces\<close>, and what happens once that call has settled.
\<close>

definition fetchSuggestions_call :: "state \<Rightarrow> string \<Rightarrow> state" where
  "fetchSuggestions_call s q =
     s\<lparr>inflight := inflight s @ [q],
       requests := (case searchPlaces_request q of None \<Rightarrow> requests s | Some p \<Rightarrow> requests s @ [p])\<rparr>"

definition fetchSuggestions_settled :: "state \<Rightarrow> string \<Rightarrow> response \<Rightarrow> state" where
  "fetchSuggestions_settled s q response =
     (case searchPlaces q response of
        Inr results \<Rightarrow>
          s\<lparr>suggestions := results, open := True,
            error := (if results = [] then Some ''No results found'' else error s)\<rparr>
      | Inl e \<Rightarrow>
          s\<lparr>error := Some (case e of Error m \<Rightarrow> m | TypeError m \<Rightarrow> m
                                    | NonError \<Rightarrow> ''Failed to search places''),
            suggestions := []\<rparr>)"

text \<open>The callback of the timer: \<open>setError(null); fetchSuggestions(query)\<close>.\<close>

definition timeout :: "state \<Rightarrow> state" where
  "timeout s =
     (case timer s of
        None \<Rightarrow> s
      | Some q \<Rightarrow> fetchSuggestions_call (s\<lparr>timer := None, error := None\<rparr>) q)"

text \<open>
  The events of the component: the user types or focuses, clicks a suggestion of the
  dropdown, the timer fires, or the \<open>i\<close>-th unsettled call of \<open>searchPlaces\<close> settles
  with a response. \<open>step\<close> is \<open>None\<close> for an event that cannot happen in the state: a
  click on a suggestion that the dropdown does not show (it shows \<open>suggestions\<close> only when
  \<open>open\<close> is set), a timer that is not pending, a call that is not in flight.
\<close>

datatype event =
    Type string
  | Focus
  | Select PlaceSuggestion
  | Timeout
  | Settle nat response

definition step :: "state \<Rightarrow> event \<Rightarrow> state option" where
  "step s ev =
     (case ev of
        Type v \<Rightarrow> Some (commit (onChange s v))
      | Focus \<Rightarrow> Some (commit (onFocus s))
      | Select suggestion \<Rightarrow>
          if open s \<and> suggestion \<in> set (suggestions s)
          then Some (commit (handleSelect s suggestion)) else None
      | Timeout \<Rightarrow> if timer s = None then None else Some (commit (timeout s))
      | Settle i response \<Rightarrow>
          if i < length (inflight s)
          then Some (commit (fetchSuggestions_settled
                               (s\<lparr>inflight := take i (inflight s) @ drop (Suc i) (inflight s)\<rparr>)
                               (inflight s ! i) response))
          else None)"

fun run :: "state \<Rightarrow> event list \<Rightarrow> state option" where
  "run s [] = Some s"
| "run s (ev # evs) = (case step s ev of None \<Rightarrow> None | Some s' \<Rightarrow> run s' evs)"

section \<open>Example data for the address search input\<close>

definition paris :: PlaceSuggestion where
  "paris = \<lparr>id' = ''1'', label = ''Paris'', lat = 48, lng = 2\<rparr>"

definition paris_feature :: feature where
  "paris_feature =
     \<lparr>coordinates = Some (2, 48), properties_label = Some ''Paris'', properties_name = None,
      properties_id = Some ''1'', properties_gid = None\<rparr>"

definition paris_response :: response where
  "paris_response = Fulfilled (Some \<lparr>data_error = None, data_features = Some [paris_feature]\<rparr>)"

definition empty_response :: response where
  "empty_response = Fulfilled (Some \<lparr>data_error = None, data_features = Some []\<rparr>)"

text \<open>A body whose \<open>error\<close> field is present and \<open>null\<close>, next to one feature.\<close>

definition null_error_data :: data where
  "null_error_data = \<lparr>data_error = Some JNull, data_features = Some [paris_feature]\<rparr>"

text \<open>A body that reports an error.\<close>

definition failed_data :: data where
  "failed_data = \<lparr>data_error = Some (JStr ''upstream unavailable''), data_features = None\<rparr>"

text \<open>
  The state in which the user has typed \<open>Par\<close>, waited for the request to be sent, typed on
  to \<open>Paris\<close>, and the answer to the first request has arrived: the dropdown shows the
  suggestion \<open>Paris\<close>, and the timer for the query \<open>Paris\<close> is pending.
\<close>

definition paris_shown :: state where
  "paris_shown =
     \<lparr>query = ''Paris'', suggestions = [paris], open = True, error = None,
      justSelectedRef = False, timer = Some ''Paris'', effect_query = ''Paris'', inflight = [],
      requests = [''Par''], selected = []\<rparr>"

text \<open>
  The state in which the user has typed \<open>Par\<close> and the answer to the request for it has
  arrived: the dropdown shows the suggestion \<open>Paris\<close>.
\<close>

definition par_shown :: state where
  "par_shown =
     \<lparr>query = ''Par'', suggestions = [paris], open = True, error = None,
      justSelectedRef = False, timer = None, effect_query = ''Par'', inflight = [],
      requests = [''Par''], selected = []\<rparr>"

text \<open>A state with two calls in flight: one for \<open>Par\<close>, and a later one for \<open>Pari\<close>.\<close>

definition two_inflight :: state where
  "two_inflight =
     \<lparr>query = ''Pari'', suggestions = [], open = False, error = None,
      justSelectedRef = False, timer = None, effect_query = ''Pari'', inflight = [''Par'', ''Pari''],
      requests = [''Par'', ''Pari''], selected = []\<rparr>"

text \<open>
  What holds of every state the component reaches: the parameter of every request issued
  has at least three characters, and a pending timer is for a query of at least three
  trimmed characters.
\<close>

definition requests_long :: "state \<Rightarrow> bool" where
  "requests_long s \<longleftrightarrow>
     list_all (\<lambda>p. 3 \<le> length p) (requests s) \<and>
     (case timer s of None \<Rightarrow> True | Some q \<Rightarrow> 3 \<le> length (trim q))"


section \<open>Properties of rounding to a double\<close>

lemma round_half_even_of_int [simp]: "round_half_even (of_int n) = n"
  by (simp add: round_half_even_def)

lemma round_half_even_ge_floor: "\<lfloor>y\<rfloor> \<le> round_half_even y"
  by (simp add: round_half_even_def Let_def)

lemma round_half_even_le_floor1: "round_half_even y \<le> \<lfloor>y\<rfloor> + 1"
  by (simp add: round_half_even_def Let_def)

lemma round_half_even_mono:
  assumes "x \<le> y"
  shows "round_half_even x \<le> round_half_even y"
proof (cases "\<lfloor>x\<rfloor> = \<lfloor>y\<rfloor>")
  case True
  then show ?thesis
    using assms by (auto simp: round_half_even_def Let_def)
next
  case False
  then have "\<lfloor>x\<rfloor> < \<lfloor>y\<rfloor>"
    using assms floor_mono [of x y] by linarith
  then have "round_half_even x \<le> \<lfloor>y\<rfloor>"
    using round_half_even_le_floor1 [of x] by linarith
  then show ?thesis
    using round_half_even_ge_floor [of y] by linarith
qed

lemma round_half_even_below:
  assumes "y < of_int M - 1 / 2"
  shows "round_half_even y \<le> M - 1"
proof -
  have "y < of_int M"
    using assms by linarith
  then have "\<lfloor>y\<rfloor> < M"
    by (simp add: floor_less_iff)
  then have f: "\<lfloor>y\<rfloor> \<le> M - 1"
    by simp
  show ?thesis
  proof (cases "\<lfloor>y\<rfloor> = M - 1")
    case True
    then have "y - of_int \<lfloor>y\<rfloor> < 1 / 2"
      using assms by simp
    then show ?thesis
      using True by (simp add: round_half_even_def Let_def)
  next
    case False
    then show ?thesis
      using f round_half_even_le_floor1 [of y] by linarith
  qed
qed

lemma exponent_bounds:
  assumes "0 < x"
  shows "2 powi exponent x \<le> x" and "x < 2 powi (exponent x + 1)"
proof -
  show "2 powi exponent x \<le> x"
  proof (cases "1 \<le> x")
    case True
    then have n: "0 < \<lfloor>x\<rfloor>" by simp
    then have b: "1 \<le> bitlen \<lfloor>x\<rfloor>"
      by (metis bitlen_eq_zero_iff bitlen_nonneg int_one_le_iff_zero_less less_le not_less)
    have "(2::int) ^ nat (bitlen \<lfloor>x\<rfloor> - 1) \<le> \<lfloor>x\<rfloor>"
      using bitlen_bounds [OF n] by simp
    then have "of_int ((2::int) ^ nat (bitlen \<lfloor>x\<rfloor> - 1)) \<le> (of_int \<lfloor>x\<rfloor> :: rat)"
      by (simp only: of_int_le_iff)
    also have "\<dots> \<le> x" by simp
    finally show ?thesis
      using True b by (simp add: exponent_def power_int_nonneg_exp)
  next
    case False
    then have x1: "x < 1" by simp
    have y: "1 < 1 / x" using assms x1 by simp
    then have c: "0 < \<lceil>1 / x\<rceil> - 1" by (simp add: less_ceiling_iff)
    have "\<lceil>1 / x\<rceil> - 1 < (2::int) ^ nat (bitlen (\<lceil>1 / x\<rceil> - 1))"
      using bitlen_bounds [OF c] by simp
    then have "\<lceil>1 / x\<rceil> \<le> (2::int) ^ nat (bitlen (\<lceil>1 / x\<rceil> - 1))"
      by simp
    then have le: "(of_int \<lceil>1 / x\<rceil> :: rat) \<le> of_int ((2::int) ^ nat (bitlen (\<lceil>1 / x\<rceil> - 1)))"
      by (simp only: of_int_le_iff)
    have "1 / x \<le> of_int \<lceil>1 / x\<rceil>"
      by (rule le_of_int_ceiling)
    also note le
    also have "(of_int ((2::int) ^ nat (bitlen (\<lceil>1 / x\<rceil> - 1))) :: rat)
               = 2 ^ nat (bitlen (\<lceil>1 / x\<rceil> - 1))"
      by simp
    finally have "1 / x \<le> 2 ^ nat (bitlen (\<lceil>1 / x\<rceil> - 1))" .
    then have "1 / 2 ^ nat (bitlen (\<lceil>1 / x\<rceil> - 1)) \<le> x"
      using assms by (simp add: field_simps)
    moreover have "2 powi (- bitlen (\<lceil>1 / x\<rceil> - 1)) = (1::rat) / 2 ^ nat (bitlen (\<lceil>1 / x\<rceil> - 1))"
      using bitlen_nonneg [of "\<lceil>1 / x\<rceil> - 1"]
      by (simp add: power_int_minus_divide power_int_nonneg_exp)
    ultimately show ?thesis
      using x1 by (simp add: exponent_def)
  qed
  show "x < 2 powi (exponent x + 1)"
  proof (cases "1 \<le> x")
    case True
    then have n: "0 < \<lfloor>x\<rfloor>" by simp
    then have b: "1 \<le> bitlen \<lfloor>x\<rfloor>"
      by (metis bitlen_eq_zero_iff bitlen_nonneg int_one_le_iff_zero_less less_le not_less)
    have "\<lfloor>x\<rfloor> + 1 \<le> (2::int) ^ nat (bitlen \<lfloor>x\<rfloor>)"
      using bitlen_bounds [OF n] by simp
    then have "(of_int (\<lfloor>x\<rfloor> + 1) :: rat) \<le> of_int ((2::int) ^ nat (bitlen \<lfloor>x\<rfloor>))"
      by (simp only: of_int_le_iff)
    moreover have "x < of_int (\<lfloor>x\<rfloor> + 1)"
      using floor_correct [of x] by simp
    ultimately have "x < 2 ^ nat (bitlen \<lfloor>x\<rfloor>)"
      by simp
    then show ?thesis
      using True b by (simp add: exponent_def power_int_nonneg_exp)
  next
    case False
    then have x1: "x < 1" by simp
    have y: "1 < 1 / x" using assms x1 by simp
    then have c: "0 < \<lceil>1 / x\<rceil> - 1" by (simp add: less_ceiling_iff)
    let ?b = "bitlen (\<lceil>1 / x\<rceil> - 1)"
    have b: "1 \<le> ?b"
      using c by (metis bitlen_eq_zero_iff bitlen_nonneg int_one_le_iff_zero_less less_le not_less)
    have "(2::int) ^ nat (?b - 1) \<le> \<lceil>1 / x\<rceil> - 1"
      using bitlen_bounds [OF c] by simp
    then have "(of_int ((2::int) ^ nat (?b - 1)) :: rat) \<le> of_int (\<lceil>1 / x\<rceil> - 1)"
      by (simp only: of_int_le_iff)
    moreover have "(of_int (\<lceil>1 / x\<rceil> - 1) :: rat) < 1 / x"
      using ceiling_correct [of "1 / x"] by simp
    ultimately have "2 ^ nat (?b - 1) < 1 / x"
      by simp
    then have "x < 1 / 2 ^ nat (?b - 1)"
      using assms by (simp add: field_simps)
    moreover have "2 powi (- ?b + 1) = (1::rat) / 2 ^ nat (?b - 1)"
    proof -
      have "- ?b + 1 = - (?b - 1)" by simp
      then have "(2::rat) powi (- ?b + 1) = 1 / 2 powi (?b - 1)"
        by (simp only: power_int_minus_divide)
      then show ?thesis
        using b by (simp add: power_int_nonneg_exp)
    qed
    ultimately show ?thesis
      using x1 by (simp add: exponent_def)
  qed
qed

lemma powi2_less_cancel:
  assumes "(2::rat) powi a < 2 powi b"
  shows "a < b"
proof (rule ccontr)
  assume "\<not> a < b"
  then have "b \<le> a" by simp
  then have "(2::rat) powi b \<le> 2 powi a"
    by (simp add: power_int_increasing)
  then show False
    using assms by simp
qed

lemma exponent_unique:
  assumes "0 < x" and "2 powi e \<le> x" and "x < 2 powi (e + 1)"
  shows "exponent x = e"
proof -
  have "(2::rat) powi e < 2 powi (exponent x + 1)"
    using assms(2) exponent_bounds(2) [OF assms(1)] by linarith
  then have "e < exponent x + 1"
    by (rule powi2_less_cancel)
  moreover have "(2::rat) powi exponent x < 2 powi (e + 1)"
    using assms(3) exponent_bounds(1) [OF assms(1)] by linarith
  then have "exponent x < e + 1"
    by (rule powi2_less_cancel)
  ultimately show ?thesis by simp
qed

lemma double_pos_unfold:
  assumes "0 < x"
  shows "double x = of_int (round_half_even (x / 2 powi (exponent x - 52))) * 2 powi (exponent x - 52)"
  using assms by (simp add: double_def Let_def)

lemma scaled_bounds:
  assumes "0 < x"
  shows "2 ^ 52 \<le> x / 2 powi (exponent x - 52)" and "x / 2 powi (exponent x - 52) < 2 ^ 53"
proof -
  have u: "(0::rat) < 2 powi (exponent x - 52)" by simp
  have "(2::rat) ^ 52 * 2 powi (exponent x - 52) = 2 powi exponent x"
    by (simp add: power_int_diff)
  then show "2 ^ 52 \<le> x / 2 powi (exponent x - 52)"
    using exponent_bounds(1) [OF assms] u by (simp add: pos_le_divide_eq)
  have "(2::rat) ^ 53 * 2 powi (exponent x - 52) = 2 powi (exponent x + 1)"
    by (simp add: power_int_diff power_int_add)
  then show "x / 2 powi (exponent x - 52) < 2 ^ 53"
    using exponent_bounds(2) [OF assms] u by (simp add: pos_divide_less_eq)
qed

lemma double_bounds:
  assumes "0 < x"
  shows "2 powi exponent x \<le> double x" and "double x \<le> 2 powi (exponent x + 1)"
proof -
  let ?u = "(2::rat) powi (exponent x - 52)"
  let ?r = "round_half_even (x / ?u)"
  have u: "0 \<le> ?u" by simp
  have f: "double x = of_int ?r * ?u"
    using assms by (rule double_pos_unfold)
  have "round_half_even (of_int (2 ^ 52)) \<le> ?r"
    using scaled_bounds(1) [OF assms] by (intro round_half_even_mono) simp
  then have "(2::int) ^ 52 \<le> ?r"
    by (simp only: round_half_even_of_int)
  then have "(of_int ((2::int) ^ 52) :: rat) \<le> of_int ?r"
    by (simp only: of_int_le_iff)
  then have "of_int ((2::int) ^ 52) * ?u \<le> of_int ?r * ?u"
    using u by (rule mult_right_mono)
  moreover have "of_int ((2::int) ^ 52) * ?u = 2 powi exponent x"
    by (simp add: power_int_diff)
  ultimately show "2 powi exponent x \<le> double x"
    by (simp only: f)
  have "?r \<le> round_half_even (of_int (2 ^ 53))"
    using scaled_bounds(2) [OF assms] by (intro round_half_even_mono) simp
  then have "?r \<le> (2::int) ^ 53"
    by (simp only: round_half_even_of_int)
  then have "(of_int ?r :: rat) \<le> of_int ((2::int) ^ 53)"
    by (simp only: of_int_le_iff)
  then have "of_int ?r * ?u \<le> of_int ((2::int) ^ 53) * ?u"
    using u by (rule mult_right_mono)
  moreover have "of_int ((2::int) ^ 53) * ?u = 2 powi (exponent x + 1)"
    by (simp add: power_int_diff power_int_add)
  ultimately show "double x \<le> 2 powi (exponent x + 1)"
    by (simp only: f)
qed

lemma double_zero [simp]: "double 0 = 0"
  by (simp add: double_def)

lemma double_pos: "0 < x \<Longrightarrow> 0 < double x"
  using double_bounds(1) [of x] zero_less_power_int [of "2::rat" "exponent x"] by linarith

lemma double_mono:
  assumes "0 \<le> x" and "x \<le> y"
  shows "double x \<le> double y"
proof (cases "x = 0")
  case True
  then show ?thesis
    using assms double_pos [of y] by (cases "y = 0") auto
next
  case False
  then have x: "0 < x" and y: "0 < y"
    using assms by simp_all
  have "(2::rat) powi exponent x < 2 powi (exponent y + 1)"
    using exponent_bounds(1) [OF x] exponent_bounds(2) [OF y] assms(2) by linarith
  then have "exponent x < exponent y + 1"
    by (rule powi2_less_cancel)
  then have le: "exponent x \<le> exponent y"
    by simp
  show ?thesis
  proof (cases "exponent x = exponent y")
    case True
    let ?u = "(2::rat) powi (exponent y - 52)"
    have u: "0 < ?u" by simp
    have "x / ?u \<le> y / ?u"
      using assms(2) u by (simp add: divide_right_mono)
    then have "round_half_even (x / ?u) \<le> round_half_even (y / ?u)"
      by (rule round_half_even_mono)
    then have "(of_int (round_half_even (x / ?u)) :: rat) \<le> of_int (round_half_even (y / ?u))"
      by (simp only: of_int_le_iff)
    then have "of_int (round_half_even (x / ?u)) * ?u \<le> of_int (round_half_even (y / ?u)) * ?u"
      using u by simp
    then show ?thesis
      using x y True by (simp add: double_pos_unfold)
  next
    case False
    then have "exponent x + 1 \<le> exponent y"
      using le by simp
    then have "(2::rat) powi (exponent x + 1) \<le> 2 powi exponent y"
      by (simp add: power_int_increasing)
    then show ?thesis
      using double_bounds(2) [OF x] double_bounds(1) [OF y] by linarith
  qed
qed


lemma round_half_even_near:
  assumes "of_int n - 1 / 2 < y" and "y < of_int n + 1 / 2"
  shows "round_half_even y = n"
proof (cases "of_int n \<le> y")
  case True
  then have "\<lfloor>y\<rfloor> = n"
    using assms(2) by (intro floor_unique) linarith+
  then show ?thesis
    using assms(2) by (simp add: round_half_even_def Let_def)
next
  case False
  then have "\<lfloor>y\<rfloor> = n - 1"
    using assms(1) by (intro floor_unique) (simp, linarith)+
  then show ?thesis
    using assms(1) by (simp add: round_half_even_def Let_def)
qed

lemma double_eq:
  assumes "0 < x" and "2 powi e \<le> x" and "x < 2 powi (e + 1)"
    and "of_int n - 1 / 2 < x / 2 powi (e - 52)" and "x / 2 powi (e - 52) < of_int n + 1 / 2"
  shows "double x = of_int n * 2 powi (e - 52)"
proof -
  have e: "exponent x = e"
    using assms(1-3) by (rule exponent_unique)
  have "round_half_even (x / 2 powi (e - 52)) = n"
    using assms(4,5) by (rule round_half_even_near)
  then show ?thesis
    using assms(1) by (simp add: double_pos_unfold e)
qed

lemma double_times_below:
  assumes "1 \<le> m" and "m < 2 ^ 53" and "0 \<le> t" and "t \<le> 1 - 1 / 2 ^ 53"
  shows "double (t * of_nat m) < of_nat m"
proof -
  define v :: rat where "v = (1 - 1 / 2 ^ 53) * of_nat m"
  define e where "e = exponent v"
  define u :: rat where "u = 2 powi (e - 52)"
  define M :: int where "M = int m * 2 ^ nat (52 - e)"
  have m0: "(0::rat) < of_nat m"
    using assms(1) by simp
  have v: "0 < v"
    using m0 by (simp add: v_def)
  have vm: "v < of_nat m"
    using m0 by (simp add: v_def algebra_simps)
  have em: "(2::rat) powi e < of_nat m"
    using exponent_bounds(1) [OF v] vm unfolding e_def by linarith
  have "(of_nat m :: rat) < 2 ^ 53"
    using assms(2) by (metis of_nat_less_iff of_nat_numeral of_nat_power)
  then have "(2::rat) powi e < 2 powi 53"
    using em by simp
  then have "e < 53"
    by (rule powi2_less_cancel)
  then have e52: "0 \<le> 52 - e"
    by simp
  have p: "(2::rat) ^ nat (52 - e) = 2 powi (52 - e)"
    using e52 by (simp add: power_int_nonneg_exp)
  have u: "u = 1 / 2 ^ nat (52 - e)"
  proof -
    have "e - 52 = - (52 - e)" by simp
    then have "u = 1 / 2 powi (52 - e)"
      unfolding u_def by (simp only: power_int_minus_divide)
    then show ?thesis
      by (simp only: p)
  qed
  have u0: "0 < u" by (simp add: u_def)
  have Mu: "(of_int M :: rat) * u = of_nat m"
    by (simp add: M_def u)
  have M52: "(2::rat) ^ 52 < of_int M"
  proof -
    have "(2::rat) powi e * 2 ^ nat (52 - e) < of_nat m * 2 ^ nat (52 - e)"
      using em by simp
    moreover have "(2::rat) powi (e + (52 - e)) = 2 powi e * 2 powi (52 - e)"
      by (rule power_int_add) simp
    then have "(2::rat) powi e * 2 ^ nat (52 - e) = 2 ^ 52"
      by (simp add: p)
    ultimately show ?thesis
      by (simp add: M_def)
  qed
  have "v / u = (1 - 1 / 2 ^ 53) * (of_int M * u) / u"
    by (simp only: Mu v_def)
  also have "\<dots> = of_int M - of_int M / 2 ^ 53"
    using u0 by (simp add: algebra_simps)
  also have "\<dots> < of_int M - 1 / 2"
    using M52 by simp
  finally have "round_half_even (v / u) \<le> M - 1"
    by (rule round_half_even_below)
  then have "(of_int (round_half_even (v / u)) :: rat) \<le> of_int (M - 1)"
    by (simp only: of_int_le_iff)
  then have "of_int (round_half_even (v / u)) * u \<le> of_int (M - 1) * u"
    using u0 by simp
  also have "\<dots> = of_nat m - u"
    using Mu by (simp add: algebra_simps)
  also have "\<dots> < of_nat m"
    using u0 by simp
  finally have "double v < of_nat m"
    using v by (simp only: double_pos_unfold u_def e_def)
  moreover have "double (t * of_nat m) \<le> double v"
    unfolding v_def using assms(3,4) m0 by (intro double_mono) (simp_all add: mult_right_mono)
  ultimately show ?thesis
    by linarith
qed

lemma double_quarters: "double (1 / 4) = 1 / 4" "double (1 / 2) = 1 / 2" "double (3 / 4) = 3 / 4" "double 1 = 1" "double (3 / 2) = 3 / 2"
proof -
  show "double (1 / 4) = 1 / 4"
    using double_eq [of "1 / 4" "-2" "2 ^ 52"] by simp
  show "double (1 / 2) = 1 / 2"
    using double_eq [of "1 / 2" "-1" "2 ^ 52"] by simp
  show "double (3 / 4) = 3 / 4"
    using double_eq [of "3 / 4" "-1" "3 * 2 ^ 51"] by simp
  show "double 1 = 1"
    using double_eq [of 1 0 "2 ^ 52"] by simp
  show "double (3 / 2) = 3 / 2"
    using double_eq [of "3 / 2" 0 "3 * 2 ^ 51"] by simp
qed

lemma double_below_one: "double (1 - 1 / 2 ^ 53) = 1 - 1 / 2 ^ 53"
  using double_eq [of "1 - 1 / 2 ^ 53" "-1" "2 ^ 53 - 1"] by simp

text \<open>
  The rounding on two familiar cases: \<open>(1 / 49) * 49\<close> is \<open>0.9999999999999999\<close>, one unit in
  the last place below \<open>1\<close>, and \<open>0.1 + 0.2\<close> is \<open>0.30000000000000004\<close>, a tie that goes to
  the even significand.
\<close>

lemma double_49th: "double (1 / 49) = 5882252574524729 / 2 ^ 58"
  using double_eq [of "1 / 49" "-6" 5882252574524729] by simp

lemma double_49: "double (double (1 / 49) * 49) = 1 - 1 / 2 ^ 53"
  unfolding double_49th using double_eq [of "5882252574524729 / 2 ^ 58 * 49" "-1" "2 ^ 53 - 1"] by simp

lemma double_unfold_at:
  assumes "0 < x" and "2 powi e \<le> x" and "x < 2 powi (e + 1)"
  shows "double x = of_int (round_half_even (x / 2 powi (e - 52))) * 2 powi (e - 52)"
  using assms by (simp add: double_pos_unfold exponent_unique)

lemma double_tenth: "double (1 / 10) = 3602879701896397 / 2 ^ 55"
  using double_eq [of "1 / 10" "-4" 7205759403792794] by simp

lemma double_fifth: "double (2 / 10) = 3602879701896397 / 2 ^ 54"
  using double_eq [of "2 / 10" "-3" 7205759403792794] by simp

lemma round_half_even_tie: "round_half_even (10808639105689191 / 2) = 5404319552844596"
proof -
  have "\<lfloor>10808639105689191 / 2 :: rat\<rfloor> = 5404319552844595"
    by (simp add: floor_eq_iff)
  then show ?thesis
    by (simp add: round_half_even_def Let_def)
qed

lemma double_tenth_plus_fifth:
  "double (double (1 / 10) + double (2 / 10)) = 5404319552844596 / 2 ^ 54"
proof -
  have s: "double (1 / 10) + double (2 / 10) = (10808639105689191 / 2 ^ 55 :: rat)"
    unfolding double_tenth double_fifth by simp
  have "double (10808639105689191 / 2 ^ 55)
        = of_int (round_half_even ((10808639105689191 / 2 ^ 55) / 2 powi (-2 - 52))) * 2 powi (-2 - 52)"
    by (rule double_unfold_at) simp_all
  moreover have "(10808639105689191 / 2 ^ 55) / 2 powi (-2 - 52) = (10808639105689191 / 2 :: rat)"
    by simp
  ultimately show ?thesis
    unfolding s by (simp add: round_half_even_tie)
qed

lemma double_nonneg: "0 \<le> x \<Longrightarrow> 0 \<le> double x"
  using double_pos [of x] by (cases "x = 0") auto

lemma round_half_even_le_half: "of_int (round_half_even y) \<le> y + 1 / 2"
proof (cases "y - of_int \<lfloor>y\<rfloor> < 1 / 2")
  case True
  then have "round_half_even y = \<lfloor>y\<rfloor>"
    by (simp add: round_half_even_def Let_def)
  moreover have "of_int \<lfloor>y\<rfloor> \<le> y + 1 / 2"
    using of_int_floor_le [of y] by linarith
  ultimately show ?thesis by simp
next
  case False
  have "(of_int (round_half_even y) :: rat) \<le> of_int (\<lfloor>y\<rfloor> + 1)"
    using round_half_even_le_floor1 [of y] by (simp only: of_int_le_iff)
  then show ?thesis
    using False by simp
qed

lemma double_rel_upper:
  assumes "0 < x"
  shows "double x \<le> x * (1 + 1 / 2 ^ 53)"
proof -
  define u :: rat where "u = 2 powi (exponent x - 52)"
  have u0: "0 < u" by (simp add: u_def)
  have "of_int (round_half_even (x / u)) \<le> x / u + 1 / 2"
    by (rule round_half_even_le_half)
  also have "1 / 2 \<le> x / u * (1 / 2 ^ 53)"
    using scaled_bounds(1) [OF assms] unfolding u_def [symmetric] by simp
  finally have "of_int (round_half_even (x / u)) \<le> x / u * (1 + 1 / 2 ^ 53)"
    by (simp add: algebra_simps)
  then have "of_int (round_half_even (x / u)) * u \<le> x / u * (1 + 1 / 2 ^ 53) * u"
    using u0 by (simp only: mult_le_cancel_right_pos)
  also have "\<dots> = x * (1 + 1 / 2 ^ 53)"
    using u0 by simp
  finally show ?thesis
    using assms by (simp only: double_pos_unfold u_def)
qed

text \<open>Rounding is symmetric, commutes with doubling and halving, and leaves a double as it is.\<close>

lemma double_neg: "double (- x) = - double x"
  by (simp add: double_def Let_def)

lemma double_mono_all:
  assumes "x \<le> y"
  shows "double x \<le> double y"
proof -
  consider "0 \<le> x" | "y \<le> 0" | "x < 0" "0 < y"
    using assms by linarith
  then show ?thesis
  proof cases
    case 1
    then show ?thesis using assms by (rule double_mono)
  next
    case 2
    then have "double (- y) \<le> double (- x)"
      using assms by (intro double_mono) simp_all
    then show ?thesis
      by (simp add: double_neg)
  next
    case 3
    have "double (- x) \<ge> 0"
      using 3(1) by (intro double_nonneg) simp
    then have "double x \<le> 0"
      by (simp add: double_neg)
    moreover have "0 \<le> double y"
      using 3(2) by (intro double_nonneg) simp
    ultimately show ?thesis by linarith
  qed
qed

lemma powi2_Suc: "(2::rat) powi (k + 1) = 2 * 2 powi k"
  by (simp add: power_int_add)

lemma powi2_52: "(2::rat) ^ 52 * 2 powi (k - 52) = 2 powi k"
proof -
  have "(2::rat) powi ((k - 52) + 52) = 2 powi (k - 52) * 2 powi 52"
    by (rule power_int_add) simp
  then show ?thesis
    by simp
qed

lemma powi2_diff52: "(2::rat) powi k / 2 powi (k - 52) = 2 ^ 52"
  using powi2_52 [of k] by (simp add: field_simps)

lemma double_twice_pos:
  assumes "0 < x"
  shows "double (2 * x) = 2 * double x"
proof -
  have e: "exponent (2 * x) = exponent x + 1"
  proof (rule exponent_unique)
    show "0 < 2 * x" using assms by simp
    have "(2::rat) powi (exponent x + 1) = 2 * 2 powi exponent x"
      by (simp add: power_int_add)
    then show "2 powi (exponent x + 1) \<le> 2 * x"
      using exponent_bounds(1) [OF assms] by simp
    have "(2::rat) powi (exponent x + 1 + 1) = 2 * 2 powi (exponent x + 1)"
      by (simp add: power_int_add)
    then show "2 * x < 2 powi (exponent x + 1 + 1)"
      using exponent_bounds(2) [OF assms] by simp
  qed
  have u: "(2::rat) powi (exponent x + 1 - 52) = 2 * 2 powi (exponent x - 52)"
  proof -
    have "exponent x + 1 - 52 = (exponent x - 52) + 1" by simp
    then show ?thesis by (simp only: powi2_Suc)
  qed
  have "double (2 * x) = of_int (round_half_even (2 * x / 2 powi (exponent (2 * x) - 52)))
                          * 2 powi (exponent (2 * x) - 52)"
    using assms by (intro double_pos_unfold) simp
  then have "double (2 * x) = of_int (round_half_even (2 * x / (2 * 2 powi (exponent x - 52))))
                          * (2 * 2 powi (exponent x - 52))"
    by (simp only: e u)
  moreover have "2 * x / (2 * 2 powi (exponent x - 52)) = x / 2 powi (exponent x - 52)"
    by simp
  ultimately have "double (2 * x) = of_int (round_half_even (x / 2 powi (exponent x - 52)))
                          * (2 * 2 powi (exponent x - 52))"
    by (simp only:)
  then show ?thesis
    using double_pos_unfold [OF assms] by simp
qed

lemma double_twice: "double (2 * x) = 2 * double x"
proof -
  consider "0 < x" | "x = 0" | "x < 0" by linarith
  then show ?thesis
  proof cases
    case 1
    then show ?thesis by (rule double_twice_pos)
  next
    case 2
    then show ?thesis by simp
  next
    case 3
    then have "double (2 * (- x)) = 2 * double (- x)"
      by (intro double_twice_pos) simp
    then show ?thesis
      using double_neg [of "2 * x"] double_neg [of x] by simp
  qed
qed

lemma double_half: "double (x / 2) = double x / 2"
  using double_twice [of "x / 2"] by simp

lemma significand_bounds:
  assumes "0 < x"
  shows "2 ^ 52 \<le> round_half_even (x / 2 powi (exponent x - 52))"
    and "round_half_even (x / 2 powi (exponent x - 52)) \<le> 2 ^ 53"
proof -
  have "round_half_even (of_int (2 ^ 52)) \<le> round_half_even (x / 2 powi (exponent x - 52))"
    using scaled_bounds(1) [OF assms] by (intro round_half_even_mono) simp
  then show "2 ^ 52 \<le> round_half_even (x / 2 powi (exponent x - 52))"
    by (simp only: round_half_even_of_int)
  have "round_half_even (x / 2 powi (exponent x - 52)) \<le> round_half_even (of_int (2 ^ 53))"
    using scaled_bounds(2) [OF assms] by (intro round_half_even_mono) simp
  then show "round_half_even (x / 2 powi (exponent x - 52)) \<le> 2 ^ 53"
    by (simp only: round_half_even_of_int)
qed

lemma double_idem_pos:
  assumes "0 < x"
  shows "double (double x) = double x"
proof -
  define e where "e = exponent x"
  define u :: rat where "u = 2 powi (e - 52)"
  define r where "r = round_half_even (x / u)"
  have u0: "0 < u" by (simp add: u_def)
  have d: "double x = of_int r * u"
    using assms by (simp add: double_pos_unfold r_def u_def e_def)
  have r1: "2 ^ 52 \<le> r" and r2: "r \<le> 2 ^ 53"
    using significand_bounds [OF assms] by (simp_all add: r_def u_def e_def)
  have r0: "(0::rat) < of_int r"
    using r1 by simp
  have p52: "(2::rat) ^ 52 * u = 2 powi e"
    by (simp add: u_def power_int_diff)
  have p53: "(2::rat) ^ 53 * u = 2 powi (e + 1)"
    by (simp add: u_def power_int_diff power_int_add)
  show ?thesis
  proof (cases "r = 2 ^ 53")
    case True
    have x: "double x = 2 powi (e + 1)"
      using d True p53 by simp
    have "double (2 powi (e + 1)) = of_int (2 ^ 52) * 2 powi (e + 1 - 52)"
    proof (rule double_eq)
      show "(0::rat) < 2 powi (e + 1)" by simp
      show "(2::rat) powi (e + 1) \<le> 2 powi (e + 1)" by simp
      show "(2::rat) powi (e + 1) < 2 powi (e + 1 + 1)"
        by (simp add: power_int_strict_increasing)
      have "(2::rat) powi (e + 1) / 2 powi (e + 1 - 52) = 2 ^ 52"
        by (rule powi2_diff52)
      then show "of_int (2 ^ 52) - 1 / 2 < (2::rat) powi (e + 1) / 2 powi (e + 1 - 52)"
        and "(2::rat) powi (e + 1) / 2 powi (e + 1 - 52) < of_int (2 ^ 52) + 1 / 2"
        by simp_all
    qed
    also have "\<dots> = 2 powi (e + 1)"
      using powi2_52 [of "e + 1"] by simp
    finally show ?thesis
      by (simp only: x)
  next
    case False
    then have r3: "r < 2 ^ 53" using r2 by simp
    have "double (of_int r * u) = of_int r * 2 powi (e - 52)"
    proof (rule double_eq)
      show "0 < of_int r * u" using r0 u0 by simp
      have "(of_int ((2::int) ^ 52) :: rat) \<le> of_int r"
        using r1 by (simp only: of_int_le_iff)
      then have "2 ^ 52 * u \<le> of_int r * u"
        using u0 by simp
      then show "2 powi e \<le> of_int r * u"
        by (simp only: p52)
      have "(of_int r :: rat) < of_int ((2::int) ^ 53)"
        using r3 by (simp only: of_int_less_iff)
      then have "of_int r * u < 2 ^ 53 * u"
        using u0 by simp
      then show "of_int r * u < 2 powi (e + 1)"
        by (simp only: p53)
      have "of_int r * u / 2 powi (e - 52) = of_int r"
        using u0 by (simp add: u_def)
      then show "of_int r - 1 / 2 < of_int r * u / 2 powi (e - 52)"
        and "of_int r * u / 2 powi (e - 52) < of_int r + 1 / 2"
        by simp_all
    qed
    then show ?thesis
      by (simp only: d u_def)
  qed
qed

lemma double_idem: "double (double x) = double x"
proof -
  consider "0 < x" | "x = 0" | "x < 0" by linarith
  then show ?thesis
  proof cases
    case 1
    then show ?thesis by (rule double_idem_pos)
  next
    case 2
    then show ?thesis by simp
  next
    case 3
    then have "double (double (- x)) = double (- x)"
      by (intro double_idem_pos) simp
    then show ?thesis
      by (simp add: double_neg)
  qed
qed

lemma rounded_midpoint:
  assumes "double a = a" and "double b = b" and "a \<le> b"
  shows "double (double (a + b) / 2) = double ((a + b) / 2)"
    and "a \<le> double ((a + b) / 2)" and "double ((a + b) / 2) \<le> b"
proof -
  show "double (double (a + b) / 2) = double ((a + b) / 2)"
    by (simp add: double_half double_idem)
  have "double (2 * a) \<le> double (a + b)"
    using assms(3) by (intro double_mono_all) simp
  then have "a \<le> double (a + b) / 2"
    using assms(1) by (simp add: double_twice)
  then show "a \<le> double ((a + b) / 2)"
    by (simp add: double_half)
  have "double (a + b) \<le> double (2 * b)"
    using assms(3) by (intro double_mono_all) simp
  then have "double (a + b) / 2 \<le> b"
    using assms(2) by (simp add: double_twice)
  then show "double ((a + b) / 2) \<le> b"
    by (simp add: double_half)
qed
section \<open>Properties of rounding over the full range of a double\<close>

lemma powi2_1074: "(2::rat) ^ 52 * 2 powi (- 1074) = 2 powi (- 1022)"
  using powi2_52 [of "- 1022"] by simp

lemma nearest_zero [simp]: "nearest 0 = 0"
  by (simp add: nearest_def)

lemma nearest_neg: "nearest (- x) = - nearest x"
  by (simp add: nearest_def double_neg)

lemma nearest_normal: "2 powi (- 1022) \<le> \<bar>x\<bar> \<Longrightarrow> nearest x = double x"
  by (simp add: nearest_def)

lemma nearest_subnormal:
  assumes "0 \<le> x" and "x < 2 powi (- 1022)"
  shows "nearest x = of_int (round_half_even (x / 2 powi (- 1074))) * 2 powi (- 1074)"
proof (cases "x = 0")
  case True
  then show ?thesis
    using round_half_even_of_int [of 0] by simp
next
  case False
  then have "0 < x" using assms(1) by simp
  then have "sgn x = 1" "\<bar>x\<bar> = x" by simp_all
  then show ?thesis
    using assms(2) by (simp only: nearest_def if_True mult_1)
qed

lemma double_powi: "double (2 powi k) = 2 powi k"
proof -
  have "double (2 powi k) = of_int (2 ^ 52) * 2 powi (k - 52)"
  proof (rule double_eq)
    show "(0::rat) < 2 powi k" by simp
    show "(2::rat) powi k \<le> 2 powi k" by simp
    show "(2::rat) powi k < 2 powi (k + 1)" by (simp add: powi2_Suc)
    show "of_int (2 ^ 52) - 1 / 2 < (2::rat) powi k / 2 powi (k - 52)"
      by (simp only: powi2_diff52) simp
    show "(2::rat) powi k / 2 powi (k - 52) < of_int (2 ^ 52) + 1 / 2"
      by (simp only: powi2_diff52) simp
  qed
  also have "\<dots> = 2 powi k"
    using powi2_52 [of k] by simp
  finally show ?thesis .
qed

lemma nearest_subnormal_le:
  assumes "0 \<le> x" and "x < 2 powi (- 1022)"
  shows "nearest x \<le> 2 powi (- 1022)"
proof -
  define u :: rat where "u = 2 powi (- 1074)"
  have u: "0 < u" by (simp add: u_def)
  have "x < 2 ^ 52 * u"
    using assms(2) by (simp only: u_def powi2_1074)
  then have "x / u \<le> of_int (2 ^ 52)"
    using u by (simp add: field_simps)
  then have "round_half_even (x / u) \<le> round_half_even (of_int (2 ^ 52))"
    by (rule round_half_even_mono)
  then have "round_half_even (x / u) \<le> 2 ^ 52"
    by (simp only: round_half_even_of_int)
  then have "(of_int (round_half_even (x / u)) :: rat) \<le> of_int (2 ^ 52)"
    by (simp only: of_int_le_iff)
  then have "of_int (round_half_even (x / u)) * u \<le> 2 ^ 52 * u"
    using u by (simp add: mult_right_mono)
  then show ?thesis
    using assms by (simp only: nearest_subnormal u_def powi2_1074)
qed

lemma nearest_mono_nonneg:
  assumes "0 \<le> x" and "x \<le> y"
  shows "nearest x \<le> nearest y"
proof (cases "y < 2 powi (- 1022)")
  case True
  define u :: rat where "u = 2 powi (- 1074)"
  have u: "0 < u" by (simp add: u_def)
  have x: "x < 2 powi (- 1022)" and y: "0 \<le> y"
    using True assms by simp_all
  have "x / u \<le> y / u"
    using assms(2) u by (simp add: divide_right_mono)
  then have "round_half_even (x / u) \<le> round_half_even (y / u)"
    by (rule round_half_even_mono)
  then have "(of_int (round_half_even (x / u)) :: rat) \<le> of_int (round_half_even (y / u))"
    by (simp only: of_int_le_iff)
  then have "of_int (round_half_even (x / u)) * u \<le> of_int (round_half_even (y / u)) * u"
    using u by (simp add: mult_right_mono)
  then show ?thesis
    using assms(1) x y True by (simp only: nearest_subnormal u_def)
next
  case False
  then have y: "2 powi (- 1022) \<le> y" by simp
  then have "(0::rat) < y"
    by (rule less_le_trans [rotated]) simp
  then have ny: "nearest y = double y"
    using y by (simp add: nearest_normal)
  show ?thesis
  proof (cases "x < 2 powi (- 1022)")
    case True
    have "nearest x \<le> 2 powi (- 1022)"
      using assms(1) True by (rule nearest_subnormal_le)
    also have "\<dots> = double (2 powi (- 1022))"
      by (simp only: double_powi)
    also have "\<dots> \<le> double y"
      using y by (rule double_mono_all)
    finally show ?thesis
      by (simp only: ny)
  next
    case False
    then have "nearest x = double x"
      using assms(1) by (simp add: nearest_normal)
    then show ?thesis
      using assms(2) by (simp only: ny double_mono_all)
  qed
qed

lemma nearest_nonneg: "0 \<le> x \<Longrightarrow> 0 \<le> nearest x"
  using nearest_mono_nonneg [of 0 x] by simp

lemma nearest_mono:
  assumes "x \<le> y"
  shows "nearest x \<le> nearest y"
proof -
  consider "0 \<le> x" | "y \<le> 0" | "x < 0" "0 < y"
    using assms by linarith
  then show ?thesis
  proof cases
    case 1
    then show ?thesis using assms by (rule nearest_mono_nonneg)
  next
    case 2
    then have "nearest (- y) \<le> nearest (- x)"
      using assms by (intro nearest_mono_nonneg) simp_all
    then show ?thesis
      by (simp add: nearest_neg)
  next
    case 3
    have "0 \<le> nearest (- x)"
      using 3(1) by (intro nearest_nonneg) simp
    then have "nearest x \<le> 0"
      by (simp add: nearest_neg)
    moreover have "0 \<le> nearest y"
      using 3(2) by (intro nearest_nonneg) simp
    ultimately show ?thesis by linarith
  qed
qed

lemma nearest_powi: "- 1022 \<le> k \<Longrightarrow> nearest (2 powi k) = 2 powi k"
proof -
  assume "- 1022 \<le> k"
  then have "(2::rat) powi (- 1022) \<le> 2 powi k"
    by (intro power_int_increasing) simp_all
  then have "(2::rat) powi (- 1022) \<le> \<bar>2 powi k\<bar>"
    by simp
  then show ?thesis
    by (simp only: nearest_normal double_powi)
qed

lemma nearest_abs_le:
  assumes "- 1022 \<le> k" and "\<bar>x\<bar> \<le> 2 powi k"
  shows "\<bar>nearest x\<bar> \<le> 2 powi k"
proof -
  have "nearest x \<le> nearest (2 powi k)"
    using assms(2) by (intro nearest_mono) simp
  moreover have "nearest (- (2 powi k)) \<le> nearest x"
    using assms(2) by (intro nearest_mono) simp
  ultimately show ?thesis
    using assms(1) by (simp add: nearest_neg nearest_powi)
qed

lemma round_number_Finite:
  assumes "\<bar>x\<bar> \<le> 2 powi 1023"
  shows "round_number x = Finite (nearest x)"
proof -
  have "\<bar>nearest x\<bar> \<le> 2 powi 1023"
    using _ assms by (rule nearest_abs_le) simp
  moreover have "(2::rat) powi 1023 < 2 powi 1024"
    by (intro power_int_strict_increasing) simp_all
  ultimately have "\<bar>nearest x\<bar> < 2 ^ 1024"
    by simp
  then have "\<not> 2 ^ 1024 \<le> nearest x" and "\<not> nearest x \<le> - (2 ^ 1024)"
    by linarith+
  then show ?thesis
    by (simp only: round_number_def Let_def if_False)
qed

lemma nearest_twice:
  assumes "nearest a = a"
  shows "nearest (2 * a) = 2 * a"
proof -
  have pos: "nearest (2 * x) = 2 * x" if x: "nearest x = x" and "0 < x" for x
  proof (cases "x < 2 powi (- 1022)")
    case False
    then have "2 powi (- 1022) \<le> \<bar>x\<bar>" and "2 powi (- 1022) \<le> \<bar>2 * x\<bar>"
      using that(2) by simp_all
    then have "nearest (2 * x) = double (2 * x)" and "nearest x = double x"
      by (simp_all only: nearest_normal)
    then show ?thesis
      using x by (simp add: double_twice)
  next
    case True
    define u :: rat where "u = 2 powi (- 1074)"
    define r where "r = round_half_even (x / u)"
    have u: "0 < u" by (simp add: u_def)
    have xr: "x = of_int r * u"
      using x that(2) True by (simp only: nearest_subnormal r_def u_def less_imp_le)
    have q: "2 * x / u = of_int (2 * r)"
      using u by (simp add: xr)
    show ?thesis
    proof (cases "2 * x < 2 powi (- 1022)")
      case True
      have "0 \<le> 2 * x"
        using that(2) by simp
      then have "nearest (2 * x) = of_int (round_half_even (2 * x / u)) * u"
        using True unfolding u_def by (rule nearest_subnormal)
      also have "\<dots> = of_int (2 * r) * u"
        by (simp only: q round_half_even_of_int)
      also have "\<dots> = 2 * x"
        by (simp add: xr)
      finally show ?thesis .
    next
      case False
      then have n: "2 powi (- 1022) \<le> 2 * x" by simp
      then have "2 powi (- 1022) \<le> \<bar>2 * x\<bar>"
        using that(2) by simp
      then have "nearest (2 * x) = double (2 * x)"
        by (rule nearest_normal)
      also have "\<dots> = of_int (2 * r) * 2 powi (- 1022 - 52)"
      proof (rule double_eq)
        show "0 < 2 * x" using that(2) by simp
        show "2 powi (- 1022) \<le> 2 * x" by (rule n)
        show "2 * x < 2 powi (- 1022 + 1)"
          using \<open>x < 2 powi (- 1022)\<close> by (simp only: powi2_Suc)
        have "2 * x / 2 powi (- 1022 - 52) = of_int (2 * r)"
          using q by (simp add: u_def)
        then show "of_int (2 * r) - 1 / 2 < 2 * x / 2 powi (- 1022 - 52)"
          and "2 * x / 2 powi (- 1022 - 52) < of_int (2 * r) + 1 / 2"
          by simp_all
      qed
      also have "\<dots> = 2 * x"
        by (simp add: xr u_def)
      finally show ?thesis .
    qed
  qed
  consider "a = 0" | "0 < a" | "a < 0" by linarith
  then show ?thesis
  proof cases
    case 1
    then show ?thesis by simp
  next
    case 2
    with assms show ?thesis by (rule pos)
  next
    case 3
    have "nearest (- a) = - a"
      using assms by (simp add: nearest_neg)
    then have "nearest (2 * (- a)) = 2 * (- a)"
      using 3 by (intro pos) simp_all
    then have "nearest (- (2 * a)) = - (2 * a)"
      by simp
    then show ?thesis
      by (simp only: nearest_neg neg_equal_iff_equal)
  qed
qed

lemma is_double_iff: "is_double x \<longleftrightarrow> nearest x = x \<and> \<bar>x\<bar> < 2 ^ 1024"
  by (auto simp add: is_double_def round_number_def Let_def)

lemma round_number_normal:
  assumes "2 powi (- 1022) \<le> \<bar>x\<bar>" and "\<bar>x\<bar> \<le> 2 powi 1023"
  shows "round_number x = Finite (double x)"
  using assms by (simp only: round_number_Finite nearest_normal)

lemma round_number_zero [simp]: "round_number 0 = Finite 0"
  using round_number_Finite [of 0] by simp

lemma double_of_int_pos:
  assumes "0 < n" and "n < 2 ^ 53"
  shows "double (of_int n) = of_int n"
proof -
  define x :: rat where "x = of_int n"
  define e where "e = exponent x"
  have x: "0 < x" and x1: "1 \<le> x" and x2: "x < 2 ^ 53"
    using assms by (simp_all add: x_def flip: of_int_power)
  have lo: "2 powi e \<le> x" and hi: "x < 2 powi (e + 1)"
    using exponent_bounds [OF x] by (simp_all add: e_def)
  have "(2::rat) powi 0 < 2 powi (e + 1)"
    using x1 hi by simp
  then have e0: "0 \<le> e"
    using powi2_less_cancel [of 0 "e + 1"] by simp
  have "(2::rat) powi e < 2 powi 53"
    using lo x2 by simp
  then have e52: "e \<le> 52"
    using powi2_less_cancel [of e 53] by simp
  have "(2::rat) powi (e - 52) * 2 powi (52 - e) = 2 powi ((e - 52) + (52 - e))"
    by (rule power_int_add [symmetric]) simp
  then have inv: "(2::rat) powi (e - 52) * 2 powi (52 - e) = 1"
    by simp
  have "(2::rat) powi (52 - e) = 2 ^ nat (52 - e)"
    using e52 by (simp add: power_int_def)
  then have p: "(2::rat) powi (52 - e) = of_int (2 ^ nat (52 - e))"
    by simp
  have "x / 2 powi (e - 52) = x * 2 powi (52 - e)"
    using inv by (simp add: field_simps)
  also have "\<dots> = of_int (n * 2 ^ nat (52 - e))"
    by (simp only: p x_def of_int_mult)
  finally have "round_half_even (x / 2 powi (e - 52)) = n * 2 ^ nat (52 - e)"
    by (simp only: round_half_even_of_int)
  then have "double x = of_int (n * 2 ^ nat (52 - e)) * 2 powi (e - 52)"
    using x by (simp only: double_pos_unfold e_def)
  also have "\<dots> = x * (2 powi (52 - e) * 2 powi (e - 52))"
    by (simp only: of_int_mult p x_def mult.assoc)
  also have "\<dots> = x"
    using inv by (simp add: mult.commute)
  finally show ?thesis
    by (simp only: x_def)
qed

lemma double_of_int:
  assumes "\<bar>n\<bar> \<le> 2 ^ 53"
  shows "double (of_int n) = of_int n"
proof -
  have pos: "double (of_int m) = of_int m" if "0 < m" and "m \<le> 2 ^ 53" for m :: int
  proof (cases "m = 2 ^ 53")
    case True
    have "double (2 powi 53) = 2 powi 53"
      by (rule double_powi)
    then show ?thesis
      by (simp add: True)
  next
    case False
    then show ?thesis
      using that by (intro double_of_int_pos) simp_all
  qed
  consider "n = 0" | "0 < n" | "n < 0" by linarith
  then show ?thesis
  proof cases
    case 1
    then show ?thesis by simp
  next
    case 2
    then show ?thesis using assms by (intro pos) simp_all
  next
    case 3
    then have "double (of_int (- n)) = of_int (- n)"
      using assms by (intro pos) simp_all
    then show ?thesis
      by (simp add: double_neg)
  qed
qed

lemma round_number_of_int:
  assumes "\<bar>n\<bar> \<le> 2 ^ 53"
  shows "round_number (of_int n) = Finite (of_int n)"
proof (cases "n = 0")
  case True
  then show ?thesis by simp
next
  case False
  then have "1 \<le> \<bar>n\<bar>" by simp
  then have "(1::rat) \<le> \<bar>of_int n\<bar>"
    by (simp flip: of_int_abs)
  moreover have "(2::rat) powi (- 1022) \<le> 2 powi 0"
    by (intro power_int_increasing) simp_all
  ultimately have lo: "2 powi (- 1022) \<le> \<bar>of_int n :: rat\<bar>"
    by simp
  have "(of_int \<bar>n\<bar> :: rat) \<le> of_int (2 ^ 53)"
    using assms by (simp only: of_int_le_iff)
  moreover have "(2::rat) powi 53 \<le> 2 powi 1023"
    by (intro power_int_increasing) simp_all
  ultimately have hi: "\<bar>of_int n :: rat\<bar> \<le> 2 powi 1023"
    by simp
  show ?thesis
    using lo hi assms by (simp only: round_number_normal double_of_int)
qed

lemma round_number_numeral:
  "(numeral k :: int) \<le> 2 ^ 53 \<Longrightarrow> round_number (numeral k) = Finite (numeral k)"
  "(numeral k :: int) \<le> 2 ^ 53 \<Longrightarrow> round_number (- numeral k) = Finite (- numeral k)"
  "round_number 1 = Finite 1"
  using round_number_of_int [of "numeral k"] round_number_of_int [of "- numeral k"]
    round_number_of_int [of 1]
  by simp_all

lemma round_number_degrees:
  assumes "1 / 2 ^ 64 \<le> \<bar>x\<bar>" and "\<bar>x\<bar> \<le> 2 ^ 64"
  shows "round_number x = Finite (double x)"
proof (rule round_number_normal)
  have "(2::rat) powi (- 1022) \<le> 2 powi (- 64)"
    by (intro power_int_increasing) simp_all
  also have "\<dots> = 1 / 2 ^ 64"
    by (simp add: power_int_minus field_simps)
  finally show "2 powi (- 1022) \<le> \<bar>x\<bar>"
    using assms(1) by simp
  have "(2::rat) powi 64 \<le> 2 powi 1023"
    by (intro power_int_increasing) simp_all
  then show "\<bar>x\<bar> \<le> 2 powi 1023"
    using assms(2) by simp
qed

text \<open>
  The midpoint \<open>(a + b) / 2\<close> of two doubles of magnitude at most \<open>2 ^ 1022\<close>, as it is
  computed: the sum does not overflow, and the result lies between the two.
\<close>

lemma half_sum_between:
  assumes "is_double a" and "is_double b" and "\<bar>a\<bar> \<le> 2 ^ 1022" and "\<bar>b\<bar> \<le> 2 ^ 1022"
    and "a \<le> b"
  shows "half_number (add_number (Finite a) (Finite b)) = Finite (nearest (nearest (a + b) / 2))"
    and "a \<le> nearest (nearest (a + b) / 2)" and "nearest (nearest (a + b) / 2) \<le> b"
proof -
  define s where "s = nearest (a + b)"
  have na: "nearest a = a" and nb: "nearest b = b"
    using assms(1,2) by (simp_all add: is_double_iff)
  have p: "(2::rat) powi 1023 = 2 * 2 ^ 1022"
    using powi2_Suc [of 1022] by simp
  have "\<bar>a + b\<bar> \<le> 2 powi 1023"
    using assms(3,4) unfolding p by linarith
  then have sum: "round_number (a + b) = Finite s"
    by (simp only: round_number_Finite s_def)
  have "nearest (2 * a) \<le> s"
    unfolding s_def using assms(5) by (intro nearest_mono) simp
  then have lo: "a \<le> s / 2"
    using na by (simp add: nearest_twice)
  have "s \<le> nearest (2 * b)"
    unfolding s_def using assms(5) by (intro nearest_mono) simp
  then have hi: "s / 2 \<le> b"
    using nb by (simp add: nearest_twice)
  have "nearest a \<le> nearest (s / 2)"
    using lo by (rule nearest_mono)
  then show lo': "a \<le> nearest (nearest (a + b) / 2)"
    by (simp only: na s_def)
  have "nearest (s / 2) \<le> nearest b"
    using hi by (rule nearest_mono)
  then show hi': "nearest (nearest (a + b) / 2) \<le> b"
    by (simp only: nb s_def)
  have "(2::rat) powi 1022 \<le> 2 powi 1023"
    by (intro power_int_increasing) simp_all
  then have "(2::rat) ^ 1022 \<le> 2 powi 1023"
    by simp
  then have "\<bar>s / 2\<bar> \<le> 2 powi 1023"
    using lo hi assms(3,4) by linarith
  then have "round_number (s / 2) = Finite (nearest (s / 2))"
    by (rule round_number_Finite)
  then show "half_number (add_number (Finite a) (Finite b)) = Finite (nearest (nearest (a + b) / 2))"
    by (simp only: add_number.simps sum half_number.simps s_def)
qed

text \<open>
  Unless the sum of the two is below \<open>2 ^ - 1021\<close> in magnitude, the computed midpoint is
  the double nearest to the exact midpoint.
\<close>

lemma half_sum_nearest_midpoint:
  assumes "2 powi (- 1021) \<le> \<bar>a + b\<bar>"
  shows "nearest (nearest (a + b) / 2) = double ((a + b) / 2)"
proof -
  have p: "(2::rat) powi (- 1021) = 2 * 2 powi (- 1022)"
    using powi2_Suc [of "- 1022"] by simp
  have "(0::rat) \<le> 2 powi (- 1022)"
    by simp
  then have t: "2 powi (- 1022) \<le> \<bar>a + b\<bar>"
    using assms unfolding p by linarith
  then have s: "nearest (a + b) = double (a + b)"
    by (rule nearest_normal)
  have "2 powi (- 1022) \<le> \<bar>(a + b) / 2\<bar>"
    using assms unfolding p by simp
  then have "nearest ((a + b) / 2) = double ((a + b) / 2)"
    by (rule nearest_normal)
  define L :: rat where "L = 2 powi (- 1021)"
  have L: "double L = L"
    unfolding L_def by (rule double_powi)
  have "L \<le> \<bar>double (a + b)\<bar>"
  proof (cases "0 \<le> a + b")
    case True
    then have "L \<le> a + b"
      using assms by (simp only: L_def abs_of_nonneg)
    then have "double L \<le> double (a + b)"
      by (rule double_mono_all)
    then show ?thesis
      unfolding L by linarith
  next
    case False
    then have "L \<le> - (a + b)"
      using assms unfolding L_def by linarith
    then have "double L \<le> double (- (a + b))"
      by (rule double_mono_all)
    then show ?thesis
      unfolding L double_neg by linarith
  qed
  then have "2 powi (- 1021) \<le> \<bar>double (a + b)\<bar>"
    by (simp only: L_def)
  then have "2 powi (- 1022) \<le> \<bar>double (a + b) / 2\<bar>"
    unfolding p by simp
  then have "nearest (double (a + b) / 2) = double (double (a + b) / 2)"
    by (rule nearest_normal)
  then show ?thesis
    by (simp add: s double_half double_idem)
qed

section \<open>Properties of stop placement\<close>

lemma map_exn_total:
  assumes "\<And>x. x \<in> set xs \<Longrightarrow> f x = Inr (g x)"
  shows "map_exn f xs = Inr (map g xs)"
  using assms by (induction xs) simp_all

lemma stopIndex_nonneg:
  assumes "1 \<le> len"
  shows "0 \<le> stopIndex index n len"
proof -
  have "(0::rat) \<le> (of_nat index + 1) / (of_nat n + 1)"
    by (intro divide_nonneg_nonneg) simp_all
  then have "0 \<le> double ((of_nat index + 1) / (of_nat n + 1))"
    by (rule double_nonneg)
  moreover have "(0::rat) \<le> of_nat len - 1"
    using assms by simp
  ultimately have "0 \<le> double ((of_nat index + 1) / (of_nat n + 1)) * (of_nat len - 1)"
    by (rule mult_nonneg_nonneg)
  then have "0 \<le> double (double ((of_nat index + 1) / (of_nat n + 1)) * (of_nat len - 1))"
    by (rule double_nonneg)
  then have "0 \<le> \<lfloor>double (double ((of_nat index + 1) / (of_nat n + 1)) * (of_nat len - 1))\<rfloor>"
    by simp
  then show ?thesis
    using assms by (simp add: stopIndex_def Let_def)
qed

lemma stopIndex_mono:
  assumes "i \<le> j" and "1 \<le> len"
  shows "stopIndex i n len \<le> stopIndex j n len"
proof -
  let ?t = "\<lambda>k::nat. double ((of_nat k + 1) / (of_nat n + 1))"
  have m: "(0::rat) \<le> of_nat len - 1"
    using assms(2) by simp
  have "(of_nat i + 1) / (of_nat n + 1) \<le> ((of_nat j + 1) / (of_nat n + 1) :: rat)"
    using assms(1) by (intro divide_right_mono) simp_all
  moreover have "(0::rat) \<le> (of_nat i + 1) / (of_nat n + 1)"
    by (intro divide_nonneg_nonneg) simp_all
  ultimately have t: "?t i \<le> ?t j" and t0: "0 \<le> ?t i"
    by (simp_all add: double_mono double_nonneg)
  have "?t i * (of_nat len - 1) \<le> ?t j * (of_nat len - 1)"
    using t m by (rule mult_right_mono)
  moreover have "0 \<le> ?t i * (of_nat len - 1)"
    using t0 m by (rule mult_nonneg_nonneg)
  ultimately have "double (?t i * (of_nat len - 1)) \<le> double (?t j * (of_nat len - 1))"
    by (simp add: double_mono)
  then have "\<lfloor>double (?t i * (of_nat len - 1))\<rfloor> \<le> \<lfloor>double (?t j * (of_nat len - 1))\<rfloor>"
    by (rule floor_mono)
  then show ?thesis
    unfolding stopIndex_def Let_def by (rule min.mono [OF order_refl])
qed

lemma quotient_below_one:
  assumes "index < n" and "n < 2 ^ 52"
  shows "(of_nat index + 1) / (of_nat n + 1) \<le> (1 - 1 / 2 ^ 52 :: rat)"
proof -
  have n1: "(of_nat n + 1 :: rat) \<le> 2 ^ 52"
  proof -
    have "n + 1 \<le> 2 ^ 52" using assms(2) by simp
    then have "(of_nat (n + 1) :: rat) \<le> of_nat (2 ^ 52)"
      by (simp only: of_nat_le_iff)
    then show ?thesis by simp
  qed
  have "index + 1 \<le> n"
    using assms(1) by simp
  then have "(of_nat (index + 1) :: rat) \<le> of_nat n"
    by (simp only: of_nat_le_iff)
  then have "(of_nat index + 1 :: rat) \<le> of_nat n"
    by simp
  then have "(of_nat index + 1) / (of_nat n + 1) \<le> (of_nat n / (of_nat n + 1) :: rat)"
    by (intro divide_right_mono) simp_all
  also have "\<dots> = 1 - 1 / (of_nat n + 1)"
    by (simp add: field_simps)
  also have "\<dots> \<le> 1 - 1 / 2 ^ 52"
    using n1 by (simp add: field_simps)
  finally show ?thesis .
qed

lemma stopIndex_below_last:
  assumes "index < n" and "2 \<le> len" and "n < 2 ^ 52" and "len < 2 ^ 52"
  shows "stopIndex index n len \<le> int len - 2"
proof -
  let ?t = "double ((of_nat index + 1) / (of_nat n + 1))"
  have a0: "(0::rat) \<le> (of_nat index + 1) / (of_nat n + 1)"
    by (intro divide_nonneg_nonneg) simp_all
  have "(1 - 1 / 2 ^ 52 :: rat) \<le> 1 - 1 / 2 ^ 53"
    by simp
  then have "(of_nat index + 1) / (of_nat n + 1) \<le> (1 - 1 / 2 ^ 53 :: rat)"
    using quotient_below_one [OF assms(1,3)] by (rule order_trans [rotated])
  then have "?t \<le> double (1 - 1 / 2 ^ 53)"
    using a0 by (simp add: double_mono)
  then have t: "?t \<le> 1 - 1 / 2 ^ 53"
    by (simp only: double_below_one)
  have t0: "0 \<le> ?t"
    using a0 by (rule double_nonneg)
  have m: "(of_nat (len - 1) :: rat) = of_nat len - 1"
    using assms(2) by (simp add: of_nat_diff)
  have "double (?t * of_nat (len - 1)) < of_nat (len - 1)"
    using assms(2,4) t0 t by (intro double_times_below) simp_all
  then have "\<lfloor>double (?t * of_nat (len - 1))\<rfloor> < int (len - 1)"
    by (simp add: floor_less_iff)
  then have "\<lfloor>double (?t * (of_nat len - 1))\<rfloor> \<le> int len - 2"
    using assms(2) by (simp add: m)
  then show ?thesis
    by (simp add: stopIndex_def Let_def)
qed

lemma stopIndex_zero:
  assumes "(index + 1) * (len - 1) < n + 1" and "1 \<le> len" and "n < 2 ^ 52"
  shows "stopIndex index n len = 0"
proof -
  define a :: rat where "a = (of_nat index + 1) / (of_nat n + 1)"
  define m :: rat where "m = of_nat len - 1"
  define eps :: rat where "eps = 1 / 2 ^ 53"
  have a0: "0 < a" by (simp add: a_def divide_pos_pos add_pos_nonneg)
  have m0: "0 \<le> m" using assms(2) by (simp add: m_def)
  have mn: "m = of_nat (len - 1)"
    using assms(2) by (simp add: m_def of_nat_diff)
  have "(index + 1) * (len - 1) \<le> n"
    using assms(1) by simp
  then have "(of_nat ((index + 1) * (len - 1)) :: rat) \<le> of_nat n"
    by (simp only: of_nat_le_iff)
  moreover have "(of_nat ((index + 1) * (len - 1)) :: rat) = (of_nat index + 1) * m"
    by (simp only: mn of_nat_mult of_nat_add of_nat_1)
  ultimately have "(of_nat index + 1) * m \<le> (of_nat n :: rat)"
    by (simp only:)
  then have "a * m \<le> of_nat n / (of_nat n + 1)"
    unfolding a_def by (simp add: divide_right_mono)
  also have "\<dots> = 1 - 1 / (of_nat n + 1)"
    by (simp add: field_simps)
  also have "\<dots> \<le> 1 - 2 * eps"
  proof -
    have "n + 1 \<le> 2 ^ 52" using assms(3) by simp
    then have "(of_nat (n + 1) :: rat) \<le> of_nat (2 ^ 52)"
      by (simp only: of_nat_le_iff)
    then have "(of_nat n + 1 :: rat) \<le> 2 ^ 52" by simp
    then show ?thesis by (simp add: eps_def field_simps)
  qed
  finally have am: "a * m \<le> 1 - 2 * eps" .
  have "double a * m \<le> a * (1 + eps) * m"
    using double_rel_upper [OF a0] m0 unfolding eps_def by (rule mult_right_mono)
  also have "\<dots> = a * m * (1 + eps)"
    by simp
  also have "\<dots> \<le> (1 - 2 * eps) * (1 + eps)"
    using am by (intro mult_right_mono) (simp_all add: eps_def)
  also have "\<dots> \<le> 1 - eps"
    by (simp add: eps_def)
  finally have "double a * m \<le> 1 - eps" .
  moreover have p: "0 \<le> double a * m"
    using a0 m0 by (intro mult_nonneg_nonneg double_nonneg) simp_all
  ultimately have "double (double a * m) \<le> double (1 - eps)"
    by (rule double_mono [rotated])
  then have "double (double a * m) < 1"
    unfolding eps_def by (simp only: double_below_one) simp
  moreover have "0 \<le> double (double a * m)"
    using p by (rule double_nonneg)
  ultimately have "\<lfloor>double (double a * m)\<rfloor> = 0"
    by (intro floor_unique) simp_all
  then show ?thesis
    using assms(2) by (simp add: stopIndex_def Let_def a_def m_def)
qed

lemma stopIndex_le_last: "stopIndex index n len \<le> int len - 1"
  by (simp add: stopIndex_def Let_def)

lemma floor_examples:
  "\<lfloor>1 / 2 :: rat\<rfloor> = 0" "\<lfloor>3 / 2 :: rat\<rfloor> = 1" "\<lfloor>1 - 1 / 2 ^ 53 :: rat\<rfloor> = 0"
  by (simp_all add: floor_eq_iff)

lemma stopIndex_examples:
  "stopIndex 0 3 3 = 0" "stopIndex (Suc 0) 3 3 = 1" "stopIndex 2 3 3 = 1"
  by (simp_all add: stopIndex_def double_quarters floor_examples)

text \<open>
  Rounding decides an index: for 48 stops on 50 vertices the exact value of
  \<open>(1 / 49) * 49\<close> is \<open>1\<close>, the rounded product is \<open>1 - 2 ^ - 53\<close>, and the first stop is
  placed on vertex \<open>0\<close>.
\<close>

lemma stopIndex_49: "stopIndex 0 48 50 = 0"
proof -
  have a: "(of_nat 0 + 1) / (of_nat 48 + 1) = (1 / 49 :: rat)" by simp
  have b: "(of_nat 50 - 1 :: rat) = 49" by simp
  show ?thesis
    unfolding stopIndex_def Let_def a b double_49 floor_examples by simp
qed

lemma placeStop_placed_at:
  assumes "index < n" and "2 \<le> length path"
  shows "placeStop path n (index, stop) = Inr (placed_at path n (index, stop))"
proof -
  have "0 \<le> stopIndex index n (length path)"
    using assms by (simp add: stopIndex_nonneg)
  moreover have "stopIndex index n (length path) < int (length path)"
    using stopIndex_le_last [of index n "length path"] by simp
  ultimately have "path_at path (stopIndex index n (length path))
                   = Inr (path ! nat (stopIndex index n (length path)))"
    by (simp add: path_at_def)
  then show ?thesis
    by (simp add: placeStop_def placed_at_def split: prod.splits)
qed

lemma stopMarkers_placed_at:
  assumes "ss \<noteq> []" and "2 \<le> length path"
  shows "stopMarkers (Some ss) path = Inr (map (placed_at path (length ss)) (enumerate 0 ss))"
proof -
  have "map_exn (placeStop path (length ss)) (enumerate 0 ss)
        = Inr (map (placed_at path (length ss)) (enumerate 0 ss))"
  proof (rule map_exn_total)
    fix x assume "x \<in> set (enumerate 0 ss)"
    then have "fst x < length ss"
      by (simp add: in_set_enumerate_eq)
    then show "placeStop path (length ss) x = Inr (placed_at path (length ss) x)"
      using assms placeStop_placed_at [of "fst x" "length ss" path "snd x"] by simp
  qed
  then show ?thesis
    using assms by (simp add: stopMarkers_def)
qed

lemma stopMarkers_nth:
  assumes "stopMarkers (Some ss) path = Inr placed" and "ss \<noteq> []" and "2 \<le> length path"
    and "i < length ss"
  shows "length placed = length ss"
    and "position (placed ! i) = path ! nat (stopIndex i (length ss) (length path))"
    and "stop.truncate (placed ! i) = ss ! i"
proof -
  have p: "placed = map (placed_at path (length ss)) (enumerate 0 ss)"
    using assms stopMarkers_placed_at by simp
  show "length placed = length ss" by (simp add: p)
  have "placed ! i = placed_at path (length ss) (i, ss ! i)"
    using assms by (simp add: p nth_enumerate_eq)
  then show "position (placed ! i) = path ! nat (stopIndex i (length ss) (length path))"
    and "stop.truncate (placed ! i) = ss ! i"
    by (simp_all add: placed_at_def stop.truncate_def)
qed


text \<open>
  Claim C6. When the path has fewer than two vertices, whatever the stops are, and when
  the stop list is empty or absent, whatever the path is, \<open>stopMarkers\<close> returns the
  empty sequence of placed stops (and does not throw).
\<close>

theorem stopMarkers_short_path_or_no_stops:
  assumes "length path < 2 \<or> stops = None \<or> stops = Some []"
  shows "stopMarkers stops path = Inr []"
  using assms by (auto simp: stopMarkers_def split: option.splits)

theorem stopMarkers_short_path_or_no_stops_witness:
  "(length [(1 / 2, 1 / 4) :: point] < 2 \<or> Some example_stops = None \<or> Some example_stops = Some [])
   \<and> stopMarkers (Some example_stops) [(1 / 2, 1 / 4)] = Inr []"
proof -
  have h: "length [(1 / 2, 1 / 4) :: point] < 2 \<or> Some example_stops = None
           \<or> Some example_stops = Some []"
    by simp
  show ?thesis
    using h stopMarkers_short_path_or_no_stops [OF h] by (rule conjI)
qed

text \<open>
  Claim C2. For a non-empty list of stops and a path of at least two vertices,
  \<open>stopMarkers\<close> returns one placed stop per stop; the path index of every placed stop
  lies between \<open>0\<close> and \<open>length path - 1\<close>, the stop sits at that vertex, and the indices
  do not decrease along the list of stops.
\<close>

theorem stopMarkers_index_range_monotone:
  assumes "ss \<noteq> []" and "2 \<le> length path"
  shows "\<exists>placed. stopMarkers (Some ss) path = Inr placed \<and> length placed = length ss \<and>
           (\<forall>i < length ss.
               0 \<le> stopIndex i (length ss) (length path) \<and>
               stopIndex i (length ss) (length path) \<le> int (length path) - 1 \<and>
               position (placed ! i) = path ! nat (stopIndex i (length ss) (length path))) \<and>
           (\<forall>i j. i \<le> j \<and> j < length ss \<longrightarrow>
               stopIndex i (length ss) (length path) \<le> stopIndex j (length ss) (length path))"
proof -
  obtain placed where p: "stopMarkers (Some ss) path = Inr placed"
    using stopMarkers_placed_at [OF assms] by blast
  have len: "length placed = length ss"
    using stopMarkers_nth(1) [OF p assms] assms(1) by (cases ss) auto
  have rng: "0 \<le> stopIndex i (length ss) (length path) \<and>
             stopIndex i (length ss) (length path) \<le> int (length path) - 1 \<and>
             position (placed ! i) = path ! nat (stopIndex i (length ss) (length path))"
    if "i < length ss" for i
  proof (intro conjI)
    show "0 \<le> stopIndex i (length ss) (length path)"
      using assms by (simp add: stopIndex_nonneg)
    show "stopIndex i (length ss) (length path) \<le> int (length path) - 1"
      by (rule stopIndex_le_last)
    show "position (placed ! i) = path ! nat (stopIndex i (length ss) (length path))"
      using stopMarkers_nth(2) [OF p assms that] .
  qed
  have mono: "stopIndex i (length ss) (length path) \<le> stopIndex j (length ss) (length path)"
    if "i \<le> j" for i j
    using that assms by (simp add: stopIndex_mono)
  show ?thesis
    using p len rng mono by blast
qed

theorem stopMarkers_index_range_monotone_witness:
  "example_stops \<noteq> [] \<and> 2 \<le> length reference_path \<and>
   (\<exists>placed. stopMarkers (Some example_stops) reference_path = Inr placed \<and>
      length placed = length example_stops \<and>
      (\<forall>i < length example_stops.
          0 \<le> stopIndex i (length example_stops) (length reference_path) \<and>
          stopIndex i (length example_stops) (length reference_path) \<le> int (length reference_path) - 1 \<and>
          position (placed ! i)
            = reference_path ! nat (stopIndex i (length example_stops) (length reference_path))) \<and>
      (\<forall>i j. i \<le> j \<and> j < length example_stops \<longrightarrow>
          stopIndex i (length example_stops) (length reference_path)
            \<le> stopIndex j (length example_stops) (length reference_path)))"
proof -
  have h1: "example_stops \<noteq> []" by (simp add: example_stops_def)
  have h2: "2 \<le> length reference_path" by (simp add: reference_path_def)
  show ?thesis
    using h1 h2 stopMarkers_index_range_monotone [OF h1 h2] by blast
qed

text \<open>
  Claim C1, as the code has it. For a non-empty list of \<open>N\<close> stops and a path of
  \<open>L \<ge> 2\<close> vertices, both within the length of a JavaScript array, the \<open>i\<close>-th placed
  stop sits exactly at the path vertex with index
  \<open>min (L - 1) \<lfloor>((i + 1) / (N + 1)) * (L - 1)\<rfloor>\<close>, the quotient and the product being the
  rounded ones of the code. That index is never \<open>L - 1\<close>, the end vertex: it lies between
  \<open>0\<close> and \<open>L - 2\<close>. It is \<open>0\<close>, the start vertex, whenever \<open>(i + 1) * (L - 1) < N + 1\<close>.
\<close>

theorem stopMarkers_vertex_never_last:
  assumes "ss \<noteq> []" and "2 \<le> length path"
    and "length ss < 2 ^ 32" and "length path < 2 ^ 32"
  shows "\<exists>placed. stopMarkers (Some ss) path = Inr placed \<and> length placed = length ss \<and>
           (\<forall>i < length ss.
               stopIndex i (length ss) (length path)
                 = min (int (length path) - 1)
                       \<lfloor>double (double ((of_nat i + 1) / (of_nat (length ss) + 1)) * (of_nat (length path) - 1))\<rfloor> \<and>
               position (placed ! i) = path ! nat (stopIndex i (length ss) (length path)) \<and>
               0 \<le> stopIndex i (length ss) (length path) \<and>
               stopIndex i (length ss) (length path) \<le> int (length path) - 2 \<and>
               ((i + 1) * (length path - 1) < length ss + 1
                  \<longrightarrow> stopIndex i (length ss) (length path) = 0))"
proof -
  have ne: "ss \<noteq> []" and l2: "2 \<le> length path"
    using assms by simp_all
  have small: "length ss < 2 ^ 52" "length path < 2 ^ 52"
    using assms(3,4) by simp_all
  obtain placed where p: "stopMarkers (Some ss) path = Inr placed"
    using stopMarkers_placed_at [OF ne l2] by blast
  have len: "length placed = length ss"
    using stopMarkers_nth(1) [OF p ne l2] ne by (cases ss) auto
  have each: "stopIndex i (length ss) (length path)
                 = min (int (length path) - 1)
                       \<lfloor>double (double ((of_nat i + 1) / (of_nat (length ss) + 1)) * (of_nat (length path) - 1))\<rfloor> \<and>
               position (placed ! i) = path ! nat (stopIndex i (length ss) (length path)) \<and>
               0 \<le> stopIndex i (length ss) (length path) \<and>
               stopIndex i (length ss) (length path) \<le> int (length path) - 2 \<and>
               ((i + 1) * (length path - 1) < length ss + 1
                  \<longrightarrow> stopIndex i (length ss) (length path) = 0)"
    if "i < length ss" for i
  proof (intro conjI)
    show "stopIndex i (length ss) (length path)
            = min (int (length path) - 1)
                  \<lfloor>double (double ((of_nat i + 1) / (of_nat (length ss) + 1)) * (of_nat (length path) - 1))\<rfloor>"
      by (simp add: stopIndex_def)
    show "position (placed ! i) = path ! nat (stopIndex i (length ss) (length path))"
      using stopMarkers_nth(2) [OF p ne l2 that] .
    show "0 \<le> stopIndex i (length ss) (length path)"
      using l2 by (simp add: stopIndex_nonneg)
    show "stopIndex i (length ss) (length path) \<le> int (length path) - 2"
      using that l2 small by (rule stopIndex_below_last)
    show "(i + 1) * (length path - 1) < length ss + 1
            \<longrightarrow> stopIndex i (length ss) (length path) = 0"
      using l2 small(1) by (simp add: stopIndex_zero)
  qed
  show ?thesis
    using p len each by blast
qed

theorem stopMarkers_vertex_never_last_witness:
  "example_stops \<noteq> [] \<and> 2 \<le> length reference_path \<and>
   length example_stops < 2 ^ 32 \<and> length reference_path < 2 ^ 32 \<and>
   (\<exists>placed. stopMarkers (Some example_stops) reference_path = Inr placed \<and>
      length placed = length example_stops \<and>
      (\<forall>i < length example_stops.
          stopIndex i (length example_stops) (length reference_path)
            = min (int (length reference_path) - 1)
                  \<lfloor>double (double ((of_nat i + 1) / (of_nat (length example_stops) + 1))
                             * (of_nat (length reference_path) - 1))\<rfloor> \<and>
          position (placed ! i)
            = reference_path ! nat (stopIndex i (length example_stops) (length reference_path)) \<and>
          0 \<le> stopIndex i (length example_stops) (length reference_path) \<and>
          stopIndex i (length example_stops) (length reference_path) \<le> int (length reference_path) - 2 \<and>
          ((i + 1) * (length reference_path - 1) < length example_stops + 1
             \<longrightarrow> stopIndex i (length example_stops) (length reference_path) = 0)))"
proof -
  have h1: "example_stops \<noteq> []" by (simp add: example_stops_def)
  have h2: "2 \<le> length reference_path" by (simp add: reference_path_def)
  have h3: "length example_stops < 2 ^ 32" by (simp add: example_stops_def)
  have h4: "length reference_path < 2 ^ 32" by (simp add: reference_path_def)
  show ?thesis
    using h1 h2 h3 h4 stopMarkers_vertex_never_last [OF h1 h2 h3 h4] by blast
qed

text \<open>
  The claim as the specification words it, with the index never \<open>0\<close>, fails on the
  specification's own scenario: three stops on the three vertices of the reference path
  are placed at the indices \<open>0\<close>, \<open>1\<close> and \<open>1\<close>, the first of them on the start vertex.
\<close>

theorem stopMarkers_start_vertex_counterexample:
  "stopIndex 0 3 3 = 0 \<and>
   stopMarkers (Some example_stops) reference_path =
     Inr [\<lparr>type = ''fuel_stop'', duration_minutes = 30, description = ''Fuel'',
            position = (double (385 / 10), double (- 1202 / 10))\<rparr>,
          \<lparr>type = ''break'', duration_minutes = 30, description = ''Rest'',
            position = (double (407 / 10), double (- 12095 / 100))\<rparr>,
          \<lparr>type = ''fuel_stop'', duration_minutes = 30, description = ''Fuel'',
            position = (double (407 / 10), double (- 12095 / 100))\<rparr>]"
proof -
  have h1: "example_stops \<noteq> []" by (simp add: example_stops_def)
  have h2: "2 \<le> length reference_path" by (simp add: reference_path_def)
  have i: "stopIndex 0 3 3 = 0" "stopIndex (Suc 0) 3 3 = 1" "stopIndex 2 3 3 = 1"
    by (rule stopIndex_examples)+
  have l: "length example_stops = 3" "length reference_path = 3"
    by (simp_all add: example_stops_def reference_path_def)
  have e: "enumerate 0 example_stops = [(0, example_stops ! 0), (Suc 0, example_stops ! 1), (2, example_stops ! 2)]"
    by (simp add: example_stops_def)
  have "stopMarkers (Some example_stops) reference_path
        = Inr (map (placed_at reference_path (length example_stops)) (enumerate 0 example_stops))"
    by (rule stopMarkers_placed_at [OF h1 h2])
  then have "stopMarkers (Some example_stops) reference_path
        = Inr [placed_at reference_path 3 (0, example_stops ! 0),
               placed_at reference_path 3 (Suc 0, example_stops ! 1),
               placed_at reference_path 3 (2, example_stops ! 2)]"
    by (simp only: l e list.map)
  moreover have "placed_at reference_path 3 (0, example_stops ! 0)
        = \<lparr>type = ''fuel_stop'', duration_minutes = 30, description = ''Fuel'',
            position = (double (385 / 10), double (- 1202 / 10))\<rparr>"
    by (simp add: placed_at_def l i) (simp add: example_stops_def reference_path_def)
  moreover have "placed_at reference_path 3 (Suc 0, example_stops ! 1)
        = \<lparr>type = ''break'', duration_minutes = 30, description = ''Rest'',
            position = (double (407 / 10), double (- 12095 / 100))\<rparr>"
    by (simp add: placed_at_def l i) (simp add: example_stops_def reference_path_def)
  moreover have "placed_at reference_path 3 (2, example_stops ! 2)
        = \<lparr>type = ''fuel_stop'', duration_minutes = 30, description = ''Fuel'',
            position = (double (407 / 10), double (- 12095 / 100))\<rparr>"
    by (simp add: placed_at_def l i) (simp add: example_stops_def reference_path_def)
  ultimately show ?thesis
    using i(1) by (simp only: simp_thms)
qed
section \<open>Properties of the decoded path\<close>

text \<open>One round of the decoder: a latitude difference and a longitude difference.\<close>

lemma decode_from_pair:
  assumes "s \<noteq> []" and "read_number (Finite 1) (Finite 0) s = (a, s1)"
    and "read_number (Finite 1) (Finite 0) s1 = (b, s2)"
  shows "decode_from lat0 lng0 s =
           (div_factor (add_number lat0 (zigzag a)), div_factor (add_number lng0 (zigzag b)))
           # decode_from (add_number lat0 (zigzag a)) (add_number lng0 (zigzag b)) s2"
  using assms by (subst decode_from.simps) (simp add: Let_def)

lemma decode_from_Nil: "decode_from lat0 lng0 [] = []"
  by (subst decode_from.simps) simp


text \<open>The numbers of the reference polyline of the specification.\<close>

lemma read_number_reference:
  "read_number (Finite 1) (Finite 0) ''_p~iF~ps|U_ulLnnqC_mqNvxq`@''
     = (Finite 7700000, ''~ps|U_ulLnnqC_mqNvxq`@'')"
  "read_number (Finite 1) (Finite 0) ''~ps|U_ulLnnqC_mqNvxq`@''
     = (Finite 24039999, ''_ulLnnqC_mqNvxq`@'')"
  "read_number (Finite 1) (Finite 0) ''_ulLnnqC_mqNvxq`@'' = (Finite 440000, ''nnqC_mqNvxq`@'')"
  "read_number (Finite 1) (Finite 0) ''nnqC_mqNvxq`@'' = (Finite 149999, ''_mqNvxq`@'')"
  "read_number (Finite 1) (Finite 0) ''_mqNvxq`@'' = (Finite 510400, ''vxq`@'')"
  "read_number (Finite 1) (Finite 0) ''vxq`@'' = (Finite 1100599, [])"
  by (simp_all add: round_number_numeral)

text \<open>
  The numbers of the reference polyline cut short: the last number ends with the string,
  and a further number read at the end of the string is zero.
\<close>

lemma read_number_truncated:
  "read_number (Finite 1) (Finite 0) ''_p~iF~ps|U_ulLnnqC_mqNvx''
     = (Finite 7700000, ''~ps|U_ulLnnqC_mqNvx'')"
  "read_number (Finite 1) (Finite 0) ''~ps|U_ulLnnqC_mqNvx'' = (Finite 24039999, ''_ulLnnqC_mqNvx'')"
  "read_number (Finite 1) (Finite 0) ''_ulLnnqC_mqNvx'' = (Finite 440000, ''nnqC_mqNvx'')"
  "read_number (Finite 1) (Finite 0) ''nnqC_mqNvx'' = (Finite 149999, ''_mqNvx'')"
  "read_number (Finite 1) (Finite 0) ''_mqNvx'' = (Finite 510400, ''vx'')"
  "read_number (Finite 1) (Finite 0) ''vx'' = (Finite 823, [])"
  "read_number (Finite 1) (Finite 0) [] = (Finite 0, [])"
  by (simp_all add: round_number_numeral)

lemma zigzag_reference:
  "zigzag (Finite 7700000) = Finite 3850000" "zigzag (Finite 24039999) = Finite (- 12020000)"
  "zigzag (Finite 440000) = Finite 220000" "zigzag (Finite 149999) = Finite (- 75000)"
  "zigzag (Finite 510400) = Finite 255200" "zigzag (Finite 1100599) = Finite (- 550300)"
  "zigzag (Finite 823) = Finite (- 412)" "zigzag (Finite 0) = Finite 0" "zigzag NaN = NaN"
  by (simp_all add: zigzag_def round_number_numeral)

lemma polyline_decode_reference:
  "polyline_decode reference_polyline = Inr (map finite_point reference_path)"
proof -
  have 3: "decode_from (Finite 4070000) (Finite (- 12095000)) ''_mqNvxq`@''
           = [(Finite (double (43252 / 1000)), Finite (double (- 126453 / 1000)))]"
    by (subst decode_from_pair [OF _ read_number_reference(5) read_number_reference(6)])
       (simp_all add: zigzag_reference decode_from_Nil round_number_numeral del: div_factor.simps,
        simp add: round_number_degrees)
  have 2: "decode_from (Finite 3850000) (Finite (- 12020000)) ''_ulLnnqC_mqNvxq`@''
           = [(Finite (double (407 / 10)), Finite (double (- 12095 / 100))),
              (Finite (double (43252 / 1000)), Finite (double (- 126453 / 1000)))]"
    by (subst decode_from_pair [OF _ read_number_reference(3) read_number_reference(4)])
       (simp_all add: zigzag_reference 3 round_number_numeral del: div_factor.simps,
        simp add: round_number_degrees)
  have 1: "decode_from (Finite 0) (Finite 0) ''_p~iF~ps|U_ulLnnqC_mqNvxq`@''
           = [(Finite (double (385 / 10)), Finite (double (- 1202 / 10))),
              (Finite (double (407 / 10)), Finite (double (- 12095 / 100))),
              (Finite (double (43252 / 1000)), Finite (double (- 126453 / 1000)))]"
    by (subst decode_from_pair [OF _ read_number_reference(1) read_number_reference(2)])
       (simp_all add: zigzag_reference 2 round_number_numeral del: div_factor.simps,
        simp add: round_number_degrees)
  show ?thesis
    by (simp add: polyline_decode_def reference_polyline_def reference_path_def 1
          finite_point_def)
qed


text \<open>
  A number of 205 characters that all announce a continuation: the shift overflows to
  \<open>Infinity\<close>, and at the end of the string \<open>0 * Infinity\<close> makes the number \<open>NaN\<close>.
\<close>

lemma pow32: "(32::rat) ^ k = 2 powi (5 * int k)"
proof -
  have "(32::rat) ^ k = (2 ^ 5) ^ k"
    by simp
  also have "\<dots> = 2 ^ (5 * k)"
    by (simp only: power_mult)
  also have "\<dots> = 2 powi (int (5 * k))"
    by (simp only: power_int_of_nat)
  finally show ?thesis
    by simp
qed

lemma round_number_overflow:
  assumes "2 powi 1024 \<le> x"
  shows "round_number x = Infinity"
proof -
  have "nearest (2 powi 1024) \<le> nearest x"
    using assms by (rule nearest_mono)
  moreover have "nearest (2 powi 1024) = 2 powi 1024"
    by (rule nearest_powi) simp
  ultimately have "2 powi 1024 \<le> nearest x"
    by (simp only:)
  then have "2 ^ 1024 \<le> nearest x"
    by simp
  then show ?thesis
    by (simp only: round_number_def Let_def if_True)
qed

lemma round_number_nonneg:
  assumes "0 \<le> x"
  shows "round_number x = Infinity \<or> (\<exists>y\<ge>0. round_number x = Finite y)"
proof -
  have "0 \<le> nearest x"
    using assms by (rule nearest_nonneg)
  moreover have "(0::rat) < 2 ^ 1024"
    by simp
  ultimately have "\<not> nearest x \<le> - (2 ^ 1024)"
    by linarith
  then show ?thesis
    using \<open>0 \<le> nearest x\<close> by (simp only: round_number_def Let_def if_False) simp
qed

lemma add_number_nonneg:
  assumes "r = Infinity \<or> (\<exists>x\<ge>0. r = Finite x)" and "p = Infinity \<or> (\<exists>y\<ge>0. p = Finite y)"
  shows "add_number r p = Infinity \<or> (\<exists>z\<ge>0. add_number r p = Finite z)"
proof (cases "r = Infinity \<or> p = Infinity")
  case True
  then show ?thesis
    using assms by auto
next
  case False
  then obtain x y where "0 \<le> x" "r = Finite x" "0 \<le> y" "p = Finite y"
    using assms by auto
  then show ?thesis
    using round_number_nonneg [of "x + y"] by simp
qed

lemma round_number_pow32:
  assumes "k \<le> 204"
  shows "round_number (32 ^ k) = Finite (32 ^ k)"
proof -
  have "(2::rat) powi (5 * int k) \<le> 2 powi 1023"
    using assms by (intro power_int_increasing) simp_all
  then have "round_number (2 powi (5 * int k)) = Finite (nearest (2 powi (5 * int k)))"
    by (intro round_number_Finite) simp
  then show ?thesis
    by (simp only: pow32) (simp add: nearest_powi)
qed

lemma read_number_endless:
  assumes "k \<le> 204" and "r = Infinity \<or> (\<exists>x\<ge>0. r = Finite x)"
  shows "read_number (Finite (32 ^ k)) r (replicate (205 - k) CHR ''~'') = (NaN, [])"
  using assms
proof (induction "204 - k" arbitrary: k r)
  case 0
  then have k: "k = 204" by simp
  define S :: rat where "S = 32 ^ 204"
  have S: "S = 2 powi 1020"
    unfolding S_def by (simp only: pow32) simp
  have "(2::rat) powi 1024 \<le> 2 powi 1025"
    by (intro power_int_increasing) simp_all
  also have "\<dots> = S * 32"
    using power_int_add [of "2::rat" 1020 5] by (simp add: S)
  finally have shift: "round_number (S * 32) = Infinity"
    by (rule round_number_overflow)
  have "(2::rat) powi 1024 = 16 * S"
    using power_int_add [of "2::rat" 4 1020] by (simp add: S)
  also have "\<dots> \<le> 31 * S"
    by (simp add: S)
  finally have chunk: "round_number (31 * S) = Infinity"
    by (rule round_number_overflow)
  have "add_number r Infinity = Infinity"
    using "0.prems"(2) by auto
  then have "read_number (Finite S) r [CHR ''~''] = (NaN, [])"
    by (simp add: shift chunk)
  then show ?case
    by (simp only: k S_def) simp
next
  case (Suc n)
  then have k: "k < 204" and n: "n = 204 - (k + 1)" and k1: "k + 1 \<le> 204"
    by simp_all
  have rep: "replicate (205 - k) CHR ''~'' = CHR ''~'' # replicate (205 - (k + 1)) CHR ''~''"
    using k by (simp flip: replicate_Suc add: Suc_diff_le)
  have shift: "round_number (32 ^ k * 32) = Finite (32 ^ (k + 1))"
    using round_number_pow32 [OF k1] by (simp add: mult.commute)
  define p where "p = round_number (31 * 32 ^ k)"
  have "p = Infinity \<or> (\<exists>y\<ge>0. p = Finite y)"
    unfolding p_def by (rule round_number_nonneg) simp
  with Suc.prems(2) have "add_number r p = Infinity \<or> (\<exists>x\<ge>0. add_number r p = Finite x)"
    by (rule add_number_nonneg)
  then have "read_number (Finite (32 ^ (k + 1))) (add_number r p)
               (replicate (205 - (k + 1)) CHR ''~'') = (NaN, [])"
    using n k1 by (intro Suc.hyps(1)) simp_all
  then show ?case
    by (simp only: rep) (simp add: shift p_def)
qed

lemma polyline_decode_endless: "polyline_decode endless_polyline = Inr [(NaN, Finite 0)]"
proof -
  have "read_number (Finite (32 ^ 0)) (Finite 0) (replicate (205 - 0) CHR ''~'') = (NaN, [])"
    by (rule read_number_endless) simp_all
  then have a: "read_number (Finite 1) (Finite 0) endless_polyline = (NaN, [])"
    by (simp add: endless_polyline_def)
  have "endless_polyline \<noteq> []"
    by (simp add: endless_polyline_def)
  then have "decode_from (Finite 0) (Finite 0) endless_polyline = [(NaN, Finite 0)]"
    by (subst decode_from_pair [OF _ a read_number_truncated(7)])
       (simp_all add: zigzag_reference decode_from_Nil)
  then show ?thesis
    by (simp only: polyline_decode_def)
qed

text \<open>The memo passes that point on: its path holds the latitude \<open>NaN\<close>.\<close>

lemma path_memo_endless:
  "path_memo polyline_decode (Some (Encoded endless_polyline)) = Inr [(NaN, Finite 0)]"
  by (simp only: path_memo_def option.case RoutePolyline.case polyline_decode_endless sum.case)




section \<open>Properties of the bounds centre\<close>

lemma foldl_bounds_step_Finite:
  "foldl bounds_step (Finite a, Finite b, Finite c, Finite d) (map finite_point ps)
   = (Finite (fold min (map fst ps) a), Finite (fold max (map fst ps) b),
      Finite (fold min (map snd ps) c), Finite (fold max (map snd ps) d))"
proof (induction ps arbitrary: a b c d)
  case Nil
  then show ?case by simp
next
  case (Cons p ps)
  obtain lat0 lng0 where p: "p = (lat0, lng0)" by (cases p)
  have "bounds_step (Finite a, Finite b, Finite c, Finite d) (finite_point p)
        = (Finite (min lat0 a), Finite (max lat0 b), Finite (min lng0 c), Finite (max lng0 d))"
    by (auto simp: bounds_step_def finite_point_def p min_def max_def)
  then show ?case
    by (simp add: Cons.IH p)
qed

lemma foldl_bounds_step_nonempty:
  assumes "points \<noteq> []"
  shows "foldl bounds_step (Infinity, NegInfinity, Infinity, NegInfinity) (map finite_point points)
         = (Finite (Min (set (map fst points))), Finite (Max (set (map fst points))),
            Finite (Min (set (map snd points))), Finite (Max (set (map snd points))))"
proof -
  obtain p ps where ps: "points = p # ps"
    using assms by (cases points) auto
  obtain lat0 lng0 where p: "p = (lat0, lng0)" by (cases p)
  have "bounds_step (Infinity, NegInfinity, Infinity, NegInfinity) (finite_point p)
        = (Finite lat0, Finite lat0, Finite lng0, Finite lng0)"
    by (simp add: bounds_step_def finite_point_def p)
  then have "foldl bounds_step (Infinity, NegInfinity, Infinity, NegInfinity) (map finite_point points)
        = (Finite (fold min (map fst ps) lat0), Finite (fold max (map fst ps) lat0),
           Finite (fold min (map snd ps) lng0), Finite (fold max (map snd ps) lng0))"
    by (simp add: ps foldl_bounds_step_Finite)
  moreover have "Min (set (map fst points)) = fold min (map fst ps) lat0"
    and "Max (set (map fst points)) = fold max (map fst ps) lat0"
    and "Min (set (map snd points)) = fold min (map snd ps) lng0"
    and "Max (set (map snd points)) = fold max (map snd ps) lng0"
    unfolding ps p list.map fst_conv snd_conv
    by (rule Min.set_eq_fold Max.set_eq_fold)+
  ultimately show ?thesis by simp
qed

lemma is_double_examples:
  "is_double 1" "is_double (1 / 2)" "is_double (3 / 2)" "is_double (1 / 4)" "is_double 0"
  by (simp_all add: is_double_def round_number_degrees double_quarters)

lemma double_examples: "double 1 = 1" "double (5 / 8) = 5 / 8"
proof -
  show "double 1 = 1"
    by (rule double_quarters)
  show "double (5 / 8) = 5 / 8"
    using double_eq [of "5 / 8" "-1" "5 * 2 ^ 50"] by simp
qed

lemma is_double_distant: "is_double (2 ^ 1023)"
proof -
  have "round_number (2 powi 1023) = Finite (nearest (2 powi 1023))"
    by (rule round_number_Finite) simp
  moreover have "nearest (2 powi 1023) = 2 powi 1023"
    by (rule nearest_powi) simp
  ultimately have "round_number (2 powi 1023) = Finite (2 powi 1023)"
    by (simp only:)
  then show ?thesis
    by (simp add: is_double_def)
qed

lemma add_number_distant: "add_number (Finite (2 ^ 1023)) (Finite (2 ^ 1023)) = Infinity"
proof -
  have "(2::rat) ^ 1023 + 2 ^ 1023 = 2 powi 1024"
    using powi2_Suc [of 1023] by simp
  moreover have "round_number (2 powi 1024) = Infinity"
    by (rule round_number_overflow) simp
  ultimately show ?thesis
    by (simp only: add_number.simps)
qed

lemma getBoundsCenter_single:
  "getBoundsCenter [(Finite a, Finite b)]
   = (half_number (add_number (Finite a) (Finite a)),
      half_number (add_number (Finite b) (Finite b)))"
  by (simp add: getBoundsCenter_def bounds_step_def del: add_number.simps half_number.simps)

text \<open>
  Claim C4, as the code has it. On the empty list \<open>getBoundsCenter\<close> returns the default centre,
  a pair of finite numbers. On a non-empty list of points whose coordinates are finite
  doubles of magnitude at most \<open>2 ^ 1022\<close> it returns on each axis the midpoint of the
  least and the greatest coordinate as the code computes it, the sum rounded to a double
  and then halved: a finite number that lies between the two, and the double nearest to
  the exact midpoint unless the sum of the two is below \<open>2 ^ - 1021\<close> in magnitude.
\<close>

theorem getBoundsCenter_default_or_bounded_midpoint:
  "getBoundsCenter [] = DEFAULT_CENTER \<and>
   (\<exists>x y. DEFAULT_CENTER = (Finite x, Finite y)) \<and>
   (points \<noteq> [] \<and>
    (\<forall>p \<in> set points. is_double (fst p) \<and> is_double (snd p) \<and>
                        \<bar>fst p\<bar> \<le> 2 ^ 1022 \<and> \<bar>snd p\<bar> \<le> 2 ^ 1022) \<longrightarrow>
      (let minLat = Min (set (map fst points)); maxLat = Max (set (map fst points));
           minLng = Min (set (map snd points)); maxLng = Max (set (map snd points));
           centerLat = nearest (nearest (minLat + maxLat) / 2);
           centerLng = nearest (nearest (minLng + maxLng) / 2)
       in getBoundsCenter (map finite_point points) = (Finite centerLat, Finite centerLng) \<and>
          minLat \<le> centerLat \<and> centerLat \<le> maxLat \<and>
          minLng \<le> centerLng \<and> centerLng \<le> maxLng \<and>
          (2 powi (- 1021) \<le> \<bar>minLat + maxLat\<bar> \<longrightarrow> centerLat = double ((minLat + maxLat) / 2)) \<and>
          (2 powi (- 1021) \<le> \<bar>minLng + maxLng\<bar> \<longrightarrow> centerLng = double ((minLng + maxLng) / 2))))"
proof (intro conjI impI)
  show "getBoundsCenter [] = DEFAULT_CENTER"
    by (simp add: getBoundsCenter_def)
  show "\<exists>x y. DEFAULT_CENTER = (Finite x, Finite y)"
    unfolding DEFAULT_CENTER_def by (simp add: round_number_degrees)
next
  assume a: "points \<noteq> [] \<and>
    (\<forall>p \<in> set points. is_double (fst p) \<and> is_double (snd p) \<and>
                        \<bar>fst p\<bar> \<le> 2 ^ 1022 \<and> \<bar>snd p\<bar> \<le> 2 ^ 1022)"
  then have ne: "points \<noteq> []" by simp
  define minLat where "minLat = Min (set (map fst points))"
  define maxLat where "maxLat = Max (set (map fst points))"
  define minLng where "minLng = Min (set (map snd points))"
  define maxLng where "maxLng = Max (set (map snd points))"
  have "minLat \<in> set (map fst points)" "maxLat \<in> set (map fst points)"
    "minLng \<in> set (map snd points)" "maxLng \<in> set (map snd points)"
    using ne unfolding minLat_def maxLat_def minLng_def maxLng_def
    by (simp_all only: Min_in Max_in List.finite_set set_empty map_is_Nil_conv not_False_eq_True)
  then have d: "is_double minLat" "is_double maxLat" "is_double minLng" "is_double maxLng"
    and m: "\<bar>minLat\<bar> \<le> 2 ^ 1022" "\<bar>maxLat\<bar> \<le> 2 ^ 1022" "\<bar>minLng\<bar> \<le> 2 ^ 1022"
      "\<bar>maxLng\<bar> \<le> 2 ^ 1022"
    using a by auto
  have lat: "minLat \<le> maxLat"
    unfolding minLat_def maxLat_def
    using ne by (intro Min_le_iff [THEN iffD2] bexI [of _ "Max (set (map fst points))"]) simp_all
  have lng: "minLng \<le> maxLng"
    unfolding minLng_def maxLng_def
    using ne by (intro Min_le_iff [THEN iffD2] bexI [of _ "Max (set (map snd points))"]) simp_all
  define centerLat where "centerLat = nearest (nearest (minLat + maxLat) / 2)"
  define centerLng where "centerLng = nearest (nearest (minLng + maxLng) / 2)"
  have "getBoundsCenter (map finite_point points)
           = (half_number (add_number (Finite minLat) (Finite maxLat)),
              half_number (add_number (Finite minLng) (Finite maxLng)))"
    using ne
    by (simp add: getBoundsCenter_def foldl_bounds_step_nonempty minLat_def maxLat_def
          minLng_def maxLng_def del: add_number.simps half_number.simps)
  then have c: "getBoundsCenter (map finite_point points) = (Finite centerLat, Finite centerLng)"
    by (simp only: half_sum_between(1) [OF d(1,2) m(1,2) lat]
          half_sum_between(1) [OF d(3,4) m(3,4) lng] centerLat_def centerLng_def)
  have "getBoundsCenter (map finite_point points) = (Finite centerLat, Finite centerLng) \<and>
          minLat \<le> centerLat \<and> centerLat \<le> maxLat \<and>
          minLng \<le> centerLng \<and> centerLng \<le> maxLng \<and>
          (2 powi (- 1021) \<le> \<bar>minLat + maxLat\<bar> \<longrightarrow> centerLat = double ((minLat + maxLat) / 2)) \<and>
          (2 powi (- 1021) \<le> \<bar>minLng + maxLng\<bar> \<longrightarrow> centerLng = double ((minLng + maxLng) / 2))"
    using c half_sum_between(2,3) [OF d(1,2) m(1,2) lat] half_sum_between(2,3) [OF d(3,4) m(3,4) lng]
      half_sum_nearest_midpoint [of minLat maxLat] half_sum_nearest_midpoint [of minLng maxLng]
    unfolding centerLat_def centerLng_def by (intro conjI impI)
  then show "let minLat = Min (set (map fst points)); maxLat = Max (set (map fst points));
           minLng = Min (set (map snd points)); maxLng = Max (set (map snd points));
           centerLat = nearest (nearest (minLat + maxLat) / 2);
           centerLng = nearest (nearest (minLng + maxLng) / 2)
       in getBoundsCenter (map finite_point points) = (Finite centerLat, Finite centerLng) \<and>
          minLat \<le> centerLat \<and> centerLat \<le> maxLat \<and>
          minLng \<le> centerLng \<and> centerLng \<le> maxLng \<and>
          (2 powi (- 1021) \<le> \<bar>minLat + maxLat\<bar> \<longrightarrow> centerLat = double ((minLat + maxLat) / 2)) \<and>
          (2 powi (- 1021) \<le> \<bar>minLng + maxLng\<bar> \<longrightarrow> centerLng = double ((minLng + maxLng) / 2))"
    unfolding Let_def minLat_def maxLat_def minLng_def maxLng_def centerLat_def centerLng_def .
qed

theorem getBoundsCenter_default_or_bounded_midpoint_witness:
  "getBoundsCenter [] = DEFAULT_CENTER \<and>
   example_points = [(1 / 2, 1), (3 / 2, 1 / 4)] \<and>
   is_double (1 / 2) \<and> is_double 1 \<and> is_double (3 / 2) \<and> is_double (1 / 4) \<and>
   (3 / 2 :: rat) \<le> 2 ^ 1022 \<and>
   (2::rat) powi (- 1021) \<le> \<bar>1 / 2 + 3 / 2\<bar> \<and> (2::rat) powi (- 1021) \<le> \<bar>1 / 4 + 1\<bar> \<and>
   getBoundsCenter (map finite_point example_points) = (Finite 1, Finite (5 / 8))"
proof -
  have h: "example_points \<noteq> [] \<and>
           (\<forall>p \<in> set example_points. is_double (fst p) \<and> is_double (snd p) \<and>
                        \<bar>fst p\<bar> \<le> 2 ^ 1022 \<and> \<bar>snd p\<bar> \<le> 2 ^ 1022)"
    by (simp add: example_points_def is_double_examples)
  have m: "Min (set (map fst example_points)) = 1 / 2"
    "Max (set (map fst example_points)) = 3 / 2"
    "Min (set (map snd example_points)) = 1 / 4"
    "Max (set (map snd example_points)) = 1"
    by (simp_all add: example_points_def)
  have s: "(2::rat) powi (- 1021) \<le> \<bar>1 / 2 + 3 / 2\<bar>" "(2::rat) powi (- 1021) \<le> \<bar>1 / 4 + 1\<bar>"
    by simp_all
  have "getBoundsCenter (map finite_point example_points)
          = (Finite (nearest (nearest (1 / 2 + 3 / 2) / 2)), Finite (nearest (nearest (1 / 4 + 1) / 2)))
        \<and> nearest (nearest (1 / 2 + 3 / 2) / 2) = double ((1 / 2 + 3 / 2) / 2)
        \<and> nearest (nearest (1 / 4 + 1) / 2) = double ((1 / 4 + 1) / 2)"
    using h s getBoundsCenter_default_or_bounded_midpoint [of example_points] unfolding Let_def m
    by blast
  then have "getBoundsCenter (map finite_point example_points) = (Finite 1, Finite (5 / 8))"
    by (simp add: double_examples)
  moreover have "getBoundsCenter [] = DEFAULT_CENTER"
    using getBoundsCenter_default_or_bounded_midpoint [of example_points] by blast
  ultimately show ?thesis
    using s by (simp add: example_points_def is_double_examples)
qed

text \<open>
  The claim as the specification words it, for every non-empty point list, fails: the
  latitude \<open>2 ^ 1023\<close> is a double, and for the single point with that latitude the sum
  \<open>minLat + maxLat\<close> overflows, so the centre has the latitude \<open>Infinity\<close>, which is not
  between the least and the greatest latitude. For a point whose coordinates are \<open>NaN\<close>
  no comparison of the loop holds, the accumulators keep their infinities, and the
  centre is \<open>NaN\<close>.
\<close>

theorem getBoundsCenter_overflow_counterexample:
  "is_double (2 ^ 1023) \<and>
   distant_points = [(Finite (2 ^ 1023), Finite 0)] \<and>
   getBoundsCenter distant_points = (Infinity, Finite 0) \<and>
   undefined_points = [(NaN, NaN)] \<and>
   getBoundsCenter undefined_points = (NaN, NaN)"
proof (intro conjI)
  show "is_double (2 ^ 1023)"
    by (rule is_double_distant)
  show "distant_points = [(Finite (2 ^ 1023), Finite 0)]"
    by (rule distant_points_def)
  have "half_number (add_number (Finite 0) (Finite 0)) = Finite 0"
    by simp
  then show "getBoundsCenter distant_points = (Infinity, Finite 0)"
    by (simp only: distant_points_def getBoundsCenter_single add_number_distant
          half_number.simps)
  show "undefined_points = [(NaN, NaN)]"
    by (rule undefined_points_def)
  show "getBoundsCenter undefined_points = (NaN, NaN)"
    by (simp add: getBoundsCenter_def undefined_points_def bounds_step_def)
qed


section \<open>Properties of the places search and of the address search input\<close>

lemmas component_defs = commit_def effect_def cleanup_def onChange_def onFocus_def
  handleSelect_def timeout_def fetchSuggestions_call_def fetchSuggestions_settled_def
  searchPlaces_request_def

lemma trim_examples:
  "trim ''Pa'' = ''Pa''" "trim ''Par'' = ''Par''" "trim ''Pari'' = ''Pari''"
  "trim ''Paris'' = ''Paris''" "trim ''Paris, France'' = ''Paris, France''"
  by (simp_all add: trim_def is_space_def)

lemma searchPlaces_paris:
  "searchPlaces ''Par'' paris_response = Inr [paris]"
  "searchPlaces ''Pari'' paris_response = Inr [paris]"
  "searchPlaces ''Paris'' paris_response = Inr [paris]"
  by (simp_all add: searchPlaces_def trim_examples paris_response_def paris_feature_def
        to_suggestion_def paris_def)

lemma searchPlaces_empty:
  "searchPlaces ''Pari'' empty_response = Inr []"
  by (simp add: searchPlaces_def trim_examples empty_response_def)

lemma run_append: "run s (evs @ evs') = (case run s evs of None \<Rightarrow> None | Some s' \<Rightarrow> run s' evs')"
  by (induction evs arbitrary: s) (simp_all split: option.splits)

subsection \<open>The example states are reachable\<close>

lemma paris_shown_reachable:
  "run init [Type ''Par'', Timeout, Type ''Paris'', Settle 0 paris_response] = Some paris_shown"
proof -
  let ?s1 = "init\<lparr>query := ''Par'', timer := Some ''Par'', effect_query := ''Par''\<rparr>"
  let ?s2 = "?s1\<lparr>timer := None, inflight := [''Par''], requests := [''Par'']\<rparr>"
  let ?s3 = "?s2\<lparr>query := ''Paris'', timer := Some ''Paris'', effect_query := ''Paris''\<rparr>"
  have 1: "step init (Type ''Par'') = Some ?s1"
    by (simp add: step_def init_def component_defs trim_examples)
  have 2: "step ?s1 Timeout = Some ?s2"
    by (simp add: step_def init_def component_defs trim_examples)
  have 3: "step ?s2 (Type ''Paris'') = Some ?s3"
    by (simp add: step_def init_def component_defs trim_examples)
  have 4: "step ?s3 (Settle 0 paris_response) = Some paris_shown"
    by (simp add: step_def init_def component_defs searchPlaces_paris paris_shown_def)
  show ?thesis
    by (simp only: run.simps 1 2 3 4 option.case)
qed

lemma par_shown_reachable:
  "run init [Type ''Par'', Timeout, Settle 0 paris_response] = Some par_shown"
proof -
  let ?s1 = "init\<lparr>query := ''Par'', timer := Some ''Par'', effect_query := ''Par''\<rparr>"
  let ?s2 = "?s1\<lparr>timer := None, inflight := [''Par''], requests := [''Par'']\<rparr>"
  have 1: "step init (Type ''Par'') = Some ?s1"
    by (simp add: step_def init_def component_defs trim_examples)
  have 2: "step ?s1 Timeout = Some ?s2"
    by (simp add: step_def init_def component_defs trim_examples)
  have 3: "step ?s2 (Settle 0 paris_response) = Some par_shown"
    by (simp add: step_def init_def component_defs searchPlaces_paris par_shown_def)
  show ?thesis
    by (simp only: run.simps 1 2 3 option.case)
qed

lemma two_inflight_reachable:
  "run init [Type ''Par'', Timeout, Type ''Pari'', Timeout] = Some two_inflight"
proof -
  let ?s1 = "init\<lparr>query := ''Par'', timer := Some ''Par'', effect_query := ''Par''\<rparr>"
  let ?s2 = "?s1\<lparr>timer := None, inflight := [''Par''], requests := [''Par'']\<rparr>"
  let ?s3 = "?s2\<lparr>query := ''Pari'', timer := Some ''Pari'', effect_query := ''Pari''\<rparr>"
  have 1: "step init (Type ''Par'') = Some ?s1"
    by (simp add: step_def init_def component_defs trim_examples)
  have 2: "step ?s1 Timeout = Some ?s2"
    by (simp add: step_def init_def component_defs trim_examples)
  have 3: "step ?s2 (Type ''Pari'') = Some ?s3"
    by (simp add: step_def init_def component_defs trim_examples)
  have 4: "step ?s3 Timeout = Some two_inflight"
    by (simp add: step_def init_def component_defs trim_examples two_inflight_def)
  show ?thesis
    by (simp only: run.simps 1 2 3 4 option.case)
qed

subsection \<open>Settling of the calls of \<open>searchPlaces\<close>\<close>

lemma step_Settle:
  assumes "i < length (inflight s)" and "effect_query s = query s"
  shows "step s (Settle i r) =
           Some (fetchSuggestions_settled
                   (s\<lparr>inflight := take i (inflight s) @ drop (Suc i) (inflight s)\<rparr>)
                   (inflight s ! i) r)"
  using assms by (simp add: step_def commit_def fetchSuggestions_settled_def split: sum.splits)

lemma fetchSuggestions_settled_Inr:
  assumes "searchPlaces q r = Inr results"
  shows "suggestions (fetchSuggestions_settled s q r) = results"
    and "open (fetchSuggestions_settled s q r)"
    and "inflight (fetchSuggestions_settled s q r) = inflight s"
    and "query (fetchSuggestions_settled s q r) = query s"
    and "effect_query (fetchSuggestions_settled s q r) = effect_query s"
  using assms by (simp_all add: fetchSuggestions_settled_def)

text \<open>
  Claim C5, as the code has it. \<open>fetchSuggestions\<close> has no request-generation guard and
  nothing cancels a call once it is issued: every call that settles writes its results
  into the visible state. With two calls in flight, for \<open>q1\<close> issued first and \<open>q2\<close>
  issued later, the suggestions shown after both have settled successfully are those of
  the call that settled last: those of the earlier call when it settles after the later
  one, those of the later call when they settle in the order of issue.
\<close>

theorem last_settled_fetch_wins:
  assumes "inflight s = [q1, q2]" and "effect_query s = query s"
    and "searchPlaces q1 r1 = Inr results1" and "searchPlaces q2 r2 = Inr results2"
  shows "(\<exists>s'. run s [Settle 1 r2, Settle 0 r1] = Some s' \<and> suggestions s' = results1 \<and> open s') \<and>
         (\<exists>s'. run s [Settle 0 r1, Settle 0 r2] = Some s' \<and> suggestions s' = results2 \<and> open s')"
proof
  let ?a = "fetchSuggestions_settled (s\<lparr>inflight := [q1]\<rparr>) q2 r2"
  let ?b = "fetchSuggestions_settled (?a\<lparr>inflight := []\<rparr>) q1 r1"
  have a: "step s (Settle 1 r2) = Some ?a"
    using step_Settle [of 1 s r2] assms(1,2) by simp
  have ia: "inflight ?a = [q1]" and qa: "effect_query ?a = query ?a"
    using assms(2,4) by (simp_all add: fetchSuggestions_settled_Inr)
  have b: "step ?a (Settle 0 r1) = Some ?b"
    using step_Settle [of 0 ?a r1] ia qa by simp
  have "run s [Settle 1 r2, Settle 0 r1] = Some ?b"
    by (simp only: run.simps a b option.case)
  moreover have "suggestions ?b = results1" and "open ?b"
    using assms(3) by (simp_all add: fetchSuggestions_settled_Inr)
  ultimately show "\<exists>s'. run s [Settle 1 r2, Settle 0 r1] = Some s' \<and> suggestions s' = results1 \<and> open s'"
    by blast
next
  let ?a = "fetchSuggestions_settled (s\<lparr>inflight := [q2]\<rparr>) q1 r1"
  let ?b = "fetchSuggestions_settled (?a\<lparr>inflight := []\<rparr>) q2 r2"
  have a: "step s (Settle 0 r1) = Some ?a"
    using step_Settle [of 0 s r1] assms(1,2) by simp
  have ia: "inflight ?a = [q2]" and qa: "effect_query ?a = query ?a"
    using assms(2,3) by (simp_all add: fetchSuggestions_settled_Inr)
  have b: "step ?a (Settle 0 r2) = Some ?b"
    using step_Settle [of 0 ?a r2] ia qa by simp
  have "run s [Settle 0 r1, Settle 0 r2] = Some ?b"
    by (simp only: run.simps a b option.case)
  moreover have "suggestions ?b = results2" and "open ?b"
    using assms(4) by (simp_all add: fetchSuggestions_settled_Inr)
  ultimately show "\<exists>s'. run s [Settle 0 r1, Settle 0 r2] = Some s' \<and> suggestions s' = results2 \<and> open s'"
    by blast
qed

theorem last_settled_fetch_wins_witness:
  "inflight two_inflight = [''Par'', ''Pari''] \<and> effect_query two_inflight = query two_inflight \<and>
   searchPlaces ''Par'' paris_response = Inr [paris] \<and> searchPlaces ''Pari'' empty_response = Inr [] \<and>
   (\<exists>s'. run two_inflight [Settle 1 empty_response, Settle 0 paris_response] = Some s' \<and>
         suggestions s' = [paris] \<and> open s') \<and>
   (\<exists>s'. run two_inflight [Settle 0 paris_response, Settle 0 empty_response] = Some s' \<and>
         suggestions s' = [] \<and> open s')"
proof -
  have h1: "inflight two_inflight = [''Par'', ''Pari'']"
    by (simp add: two_inflight_def)
  have h2: "effect_query two_inflight = query two_inflight"
    by (simp add: two_inflight_def)
  have h3: "searchPlaces ''Par'' paris_response = Inr [paris]"
    by (rule searchPlaces_paris)
  have h4: "searchPlaces ''Pari'' empty_response = Inr []"
    by (rule searchPlaces_empty)
  show ?thesis
    using h1 h2 h3 h4 last_settled_fetch_wins [OF h1 h2 h3 h4] by blast
qed

text \<open>
  The claim as the specification words it fails. The user types \<open>Par\<close>, the request for
  it is sent, the user types on to \<open>Pari\<close>, the request for that is sent; the later
  request is answered first, with no results, and the earlier one after it, with the
  suggestion \<open>Paris\<close>. The component then shows the results of the earlier request under
  the query \<open>Pari\<close>. The same happens when both requests carry the same query: the user
  types \<open>Par\<close>, the request is sent, the user types \<open>Pari\<close> and deletes the last character
  again, and a second request for \<open>Par\<close> is sent; it is answered first, with no results,
  and the answer to the first request, which arrives later, puts the suggestion \<open>Paris\<close>
  on display.
\<close>

theorem stale_response_overwrites_counterexample:
  "run init [Type ''Par'', Timeout, Type ''Pari'', Timeout,
             Settle 1 empty_response, Settle 0 paris_response]
     = Some (two_inflight\<lparr>suggestions := [paris], open := True,
                           error := Some ''No results found'', inflight := []\<rparr>)
   \<and> searchPlaces ''Pari'' empty_response = Inr []
   \<and> searchPlaces ''Par'' paris_response = Inr [paris]
   \<and> run init [Type ''Par'', Timeout, Type ''Pari'', Type ''Par'', Timeout,
                Settle 1 empty_response, Settle 0 paris_response]
     = Some \<lparr>query = ''Par'', suggestions = [paris], open = True,
             error = Some ''No results found'', justSelectedRef = False, timer = None,
             effect_query = ''Par'', inflight = [], requests = [''Par'', ''Par''],
             selected = []\<rparr>
   \<and> searchPlaces ''Par'' empty_response = Inr []"
proof -
  let ?a = "two_inflight\<lparr>suggestions := [], open := True,
                          error := Some ''No results found'', inflight := [''Par'']\<rparr>"
  let ?b = "two_inflight\<lparr>suggestions := [paris], open := True,
                          error := Some ''No results found'', inflight := []\<rparr>"
  have a: "step two_inflight (Settle 1 empty_response) = Some ?a"
    by (simp add: step_def two_inflight_def component_defs searchPlaces_empty)
  have b: "step ?a (Settle 0 paris_response) = Some ?b"
    by (simp add: step_def two_inflight_def component_defs searchPlaces_paris)
  have "run two_inflight [Settle 1 empty_response, Settle 0 paris_response] = Some ?b"
    by (simp only: run.simps a b option.case)
  then have first: "run init ([Type ''Par'', Timeout, Type ''Pari'', Timeout]
                  @ [Settle 1 empty_response, Settle 0 paris_response]) = Some ?b"
    by (simp only: run_append two_inflight_reachable option.case)
  let ?s1 = "init\<lparr>query := ''Par'', timer := Some ''Par'', effect_query := ''Par''\<rparr>"
  let ?s2 = "?s1\<lparr>timer := None, inflight := [''Par''], requests := [''Par'']\<rparr>"
  let ?s3 = "?s2\<lparr>query := ''Pari'', timer := Some ''Pari'', effect_query := ''Pari''\<rparr>"
  let ?s4 = "?s3\<lparr>query := ''Par'', timer := Some ''Par'', effect_query := ''Par''\<rparr>"
  let ?s5 = "?s4\<lparr>timer := None, inflight := [''Par'', ''Par''], requests := [''Par'', ''Par'']\<rparr>"
  let ?s6 = "?s5\<lparr>inflight := [''Par''], suggestions := [], open := True,
                  error := Some ''No results found''\<rparr>"
  let ?s7 = "\<lparr>query = ''Par'', suggestions = [paris], open = True,
             error = Some ''No results found'', justSelectedRef = False, timer = None,
             effect_query = ''Par'', inflight = [], requests = [''Par'', ''Par''],
             selected = []\<rparr>"
  have e: "searchPlaces ''Par'' empty_response = Inr []"
    by (simp add: searchPlaces_def trim_examples empty_response_def)
  have 1: "step init (Type ''Par'') = Some ?s1"
    by (simp add: step_def init_def component_defs trim_examples)
  have 2: "step ?s1 Timeout = Some ?s2"
    by (simp add: step_def init_def component_defs trim_examples)
  have 3: "step ?s2 (Type ''Pari'') = Some ?s3"
    by (simp add: step_def init_def component_defs trim_examples)
  have 4: "step ?s3 (Type ''Par'') = Some ?s4"
    by (simp add: step_def init_def component_defs trim_examples)
  have 5: "step ?s4 Timeout = Some ?s5"
    by (simp add: step_def init_def component_defs trim_examples)
  have 6: "step ?s5 (Settle 1 empty_response) = Some ?s6"
    by (simp add: step_def init_def component_defs e)
  have 7: "step ?s6 (Settle 0 paris_response) = Some ?s7"
    by (simp add: step_def init_def component_defs searchPlaces_paris)
  have second: "run init [Type ''Par'', Timeout, Type ''Pari'', Type ''Par'', Timeout,
                  Settle 1 empty_response, Settle 0 paris_response] = Some ?s7"
    by (simp only: run.simps 1 2 3 4 5 6 7 option.case)
  show ?thesis
    using first second e searchPlaces_empty searchPlaces_paris(1) by simp
qed

subsection \<open>Selecting a suggestion\<close>

text \<open>
  Claim C7. \<open>handleSelect\<close> passes the point of the suggestion to \<open>onLocationSelected\<close>,
  replaces the query by the label of the suggestion, closes the panel and clears the
  suggestions. The evaluation of the effect on the state it leaves starts no timer,
  issues no request, and leaves the panel closed and the suggestions empty; when the
  label differs from the query of the last evaluation, this evaluation is the one that
  the rewrite of the query causes.
\<close>

theorem handleSelect_closes_panel_no_refetch:
  "selected (handleSelect s suggestion) = selected s @ [(lat suggestion, lng suggestion)] \<and>
   query (handleSelect s suggestion) = label suggestion \<and>
   \<not> open (handleSelect s suggestion) \<and>
   suggestions (handleSelect s suggestion) = [] \<and>
   (let s' = effect (cleanup (handleSelect s suggestion))
    in timer s' = None \<and> inflight s' = inflight s \<and> requests s' = requests s \<and>
       \<not> open s' \<and> suggestions s' = [] \<and> query s' = label suggestion \<and>
       selected s' = selected s @ [(lat suggestion, lng suggestion)]) \<and>
   (label suggestion \<noteq> effect_query s \<longrightarrow>
      commit (handleSelect s suggestion)
        = (effect (cleanup (handleSelect s suggestion)))\<lparr>effect_query := label suggestion\<rparr>)"
  by (simp add: handleSelect_def effect_def cleanup_def commit_def Let_def)

theorem handleSelect_closes_panel_no_refetch_witness:
  "selected (handleSelect par_shown paris) = selected par_shown @ [(lat paris, lng paris)] \<and>
   query (handleSelect par_shown paris) = label paris \<and>
   \<not> open (handleSelect par_shown paris) \<and>
   suggestions (handleSelect par_shown paris) = [] \<and>
   (let s' = effect (cleanup (handleSelect par_shown paris))
    in timer s' = None \<and> inflight s' = inflight par_shown \<and> requests s' = requests par_shown \<and>
       \<not> open s' \<and> suggestions s' = [] \<and> query s' = label paris \<and>
       selected s' = selected par_shown @ [(lat paris, lng paris)]) \<and>
   label paris \<noteq> effect_query par_shown \<and>
   commit (handleSelect par_shown paris)
     = (effect (cleanup (handleSelect par_shown paris)))\<lparr>effect_query := label paris\<rparr>"
proof -
  have h: "label paris \<noteq> effect_query par_shown"
    by (simp add: paris_def par_shown_def)
  show ?thesis
    using h handleSelect_closes_panel_no_refetch [of par_shown paris] by blast
qed

text \<open>
  Claim C9. When the label of the selected suggestion equals the current query, React
  does not run the effect again: the state after the click is the one \<open>handleSelect\<close>
  leaves, with \<open>justSelectedRef\<close> still set and the pending timer untouched. The next
  edit of the query, to any other text \<open>v\<close>, is then the evaluation that consumes the
  flag: it returns early, so no timer is pending after it and no call or request is
  issued for \<open>v\<close>, however long \<open>v\<close> is.
\<close>

theorem select_same_label_swallows_next_edit:
  assumes "open s" and "suggestion \<in> set (suggestions s)" and "effect_query s = query s"
    and "label suggestion = query s" and "v \<noteq> query s"
  shows "\<exists>s1 s2. step s (Select suggestion) = Some s1 \<and> s1 = handleSelect s suggestion \<and>
           justSelectedRef s1 \<and> timer s1 = timer s \<and>
           step s1 (Type v) = Some s2 \<and> query s2 = v \<and> \<not> justSelectedRef s2 \<and>
           timer s2 = None \<and> inflight s2 = inflight s \<and> requests s2 = requests s \<and>
           step s2 Timeout = None"
proof -
  let ?s1 = "handleSelect s suggestion"
  let ?s2 = "commit (onChange ?s1 v)"
  have 1: "step s (Select suggestion) = Some ?s1"
    using assms(1-4) by (simp add: step_def commit_def handleSelect_def)
  have 2: "step ?s1 (Type v) = Some ?s2"
    by (simp add: step_def)
  have flag: "justSelectedRef ?s1" and t1: "timer ?s1 = timer s"
    by (simp_all add: handleSelect_def)
  have s2: "query ?s2 = v" "\<not> justSelectedRef ?s2" "timer ?s2 = None"
    "inflight ?s2 = inflight s" "requests ?s2 = requests s"
    using assms(3-5) by (simp_all add: component_defs)
  have 3: "step ?s2 Timeout = None"
    using s2(3) by (simp add: step_def)
  show ?thesis
    using 1 2 3 flag t1 s2 by blast
qed

theorem select_same_label_swallows_next_edit_witness:
  "open paris_shown \<and> paris \<in> set (suggestions paris_shown) \<and>
   effect_query paris_shown = query paris_shown \<and> label paris = query paris_shown \<and>
   ''Paris, France'' \<noteq> query paris_shown \<and> 3 \<le> length (trim ''Paris, France'') \<and>
   (\<exists>s1 s2. step paris_shown (Select paris) = Some s1 \<and> s1 = handleSelect paris_shown paris \<and>
      justSelectedRef s1 \<and> timer s1 = timer paris_shown \<and>
      step s1 (Type ''Paris, France'') = Some s2 \<and> query s2 = ''Paris, France'' \<and>
      \<not> justSelectedRef s2 \<and> timer s2 = None \<and> inflight s2 = inflight paris_shown \<and>
      requests s2 = requests paris_shown \<and> step s2 Timeout = None)"
proof -
  have h1: "open paris_shown" by (simp add: paris_shown_def)
  have h2: "paris \<in> set (suggestions paris_shown)" by (simp add: paris_shown_def)
  have h3: "effect_query paris_shown = query paris_shown" by (simp add: paris_shown_def)
  have h4: "label paris = query paris_shown" by (simp add: paris_shown_def paris_def)
  have h5: "''Paris, France'' \<noteq> query paris_shown" by (simp add: paris_shown_def)
  have h6: "3 \<le> length (trim ''Paris, France'')" by (simp add: trim_examples)
  show ?thesis
    using h1 h2 h3 h4 h5 h6 select_same_label_swallows_next_edit [OF h1 h2 h3 h4 h5] by blast
qed

subsection \<open>Short queries\<close>

lemma requests_long_init: "requests_long init"
  by (simp add: requests_long_def init_def)

lemma requests_long_commit:
  assumes "requests_long s"
  shows "requests_long (commit s)"
  using assms by (simp add: requests_long_def component_defs)

lemma requests_long_step:
  assumes "requests_long s" and "step s ev = Some s'"
  shows "requests_long s'"
proof (cases ev)
  case (Type v)
  have "requests_long (s\<lparr>query := v\<rparr>)"
    using assms(1) by (simp add: requests_long_def)
  then show ?thesis
    using assms(2) Type requests_long_commit by (auto simp: step_def onChange_def)
next
  case Focus
  have "requests_long (onFocus s)"
    using assms(1) by (simp add: requests_long_def onFocus_def)
  then show ?thesis
    using assms(2) Focus requests_long_commit by (auto simp: step_def)
next
  case (Select suggestion)
  have "requests_long (handleSelect s suggestion)"
    using assms(1) by (simp add: requests_long_def handleSelect_def)
  then show ?thesis
    using assms(2) Select requests_long_commit by (auto simp: step_def split: if_splits)
next
  case Timeout
  have "requests_long (timeout s)"
    using assms(1)
    by (auto simp: requests_long_def timeout_def fetchSuggestions_call_def
          searchPlaces_request_def split: option.splits)
  then show ?thesis
    using assms(2) Timeout requests_long_commit by (auto simp: step_def split: if_splits)
next
  case (Settle i r)
  let ?t = "s\<lparr>inflight := take i (inflight s) @ drop (Suc i) (inflight s)\<rparr>"
  have "requests_long (fetchSuggestions_settled ?t (inflight s ! i) r)"
    using assms(1) by (simp add: requests_long_def fetchSuggestions_settled_def split: sum.splits)
  then show ?thesis
    using assms(2) Settle requests_long_commit by (auto simp: step_def split: if_splits)
qed

lemma requests_long_run:
  assumes "requests_long s" and "run s evs = Some s'"
  shows "requests_long s'"
  using assms
proof (induction evs arbitrary: s)
  case Nil
  then show ?case by simp
next
  case (Cons ev evs)
  then show ?case
    by (auto split: option.splits dest: requests_long_step)
qed

text \<open>
  Claim C8, as the code has it. When the effect is evaluated for a query of fewer than
  three trimmed characters it starts no timer, and neither a call nor a request is
  issued; \<open>searchPlaces\<close> itself would issue no request for such a query; and, unless
  \<open>justSelectedRef\<close> is set, the evaluation clears the suggestions and the error and
  closes the panel. In every state that the component reaches from its initial state,
  every request issued so far has a parameter of at least three characters.
\<close>

theorem short_query_no_fetch_clears_unless_just_selected:
  assumes "length (trim (query s)) < 3" and "run init evs = Some r"
  shows "timer (effect (cleanup s)) = None \<and>
         inflight (effect (cleanup s)) = inflight s \<and>
         requests (effect (cleanup s)) = requests s \<and>
         searchPlaces_request (query s) = None \<and>
         (\<not> justSelectedRef s \<longrightarrow>
            suggestions (effect (cleanup s)) = [] \<and> \<not> open (effect (cleanup s)) \<and>
            error (effect (cleanup s)) = None) \<and>
         list_all (\<lambda>p. 3 \<le> length p) (requests r)"
proof -
  have "requests_long r"
    using requests_long_init assms(2) by (rule requests_long_run)
  then have "list_all (\<lambda>p. 3 \<le> length p) (requests r)"
    by (simp add: requests_long_def)
  then show ?thesis
    using assms(1) by (simp add: effect_def cleanup_def searchPlaces_request_def)
qed

theorem short_query_no_fetch_clears_unless_just_selected_witness:
  "length (trim (query (par_shown\<lparr>query := ''Pa''\<rparr>))) < 3 \<and>
   run init [Type ''Par'', Timeout, Type ''Paris'', Settle 0 paris_response] = Some paris_shown \<and>
   timer (effect (cleanup (par_shown\<lparr>query := ''Pa''\<rparr>))) = None \<and>
   inflight (effect (cleanup (par_shown\<lparr>query := ''Pa''\<rparr>))) = inflight (par_shown\<lparr>query := ''Pa''\<rparr>) \<and>
   requests (effect (cleanup (par_shown\<lparr>query := ''Pa''\<rparr>))) = requests (par_shown\<lparr>query := ''Pa''\<rparr>) \<and>
   searchPlaces_request (query (par_shown\<lparr>query := ''Pa''\<rparr>)) = None \<and>
   \<not> justSelectedRef (par_shown\<lparr>query := ''Pa''\<rparr>) \<and>
   suggestions (effect (cleanup (par_shown\<lparr>query := ''Pa''\<rparr>))) = [] \<and>
   \<not> open (effect (cleanup (par_shown\<lparr>query := ''Pa''\<rparr>))) \<and>
   error (effect (cleanup (par_shown\<lparr>query := ''Pa''\<rparr>))) = None \<and>
   list_all (\<lambda>p. 3 \<le> length p) (requests paris_shown)"
proof -
  have h1: "length (trim (query (par_shown\<lparr>query := ''Pa''\<rparr>))) < 3"
    by (simp add: trim_examples)
  have h2: "run init [Type ''Par'', Timeout, Type ''Paris'', Settle 0 paris_response] = Some paris_shown"
    by (rule paris_shown_reachable)
  have h3: "\<not> justSelectedRef (par_shown\<lparr>query := ''Pa''\<rparr>)"
    by (simp add: par_shown_def)
  show ?thesis
    using h1 h2 h3 short_query_no_fetch_clears_unless_just_selected [OF h1 h2] by blast
qed

text \<open>
  The claim as the specification words it fails in a state the component reaches. The
  user types \<open>Par\<close>, the request is sent, the user types on to \<open>Paris\<close>, and the answer
  to the first request shows the suggestion \<open>Paris\<close>; the user clicks it. Its label is
  the query, so the effect does not run: \<open>justSelectedRef\<close> stays set and the timer for
  \<open>Paris\<close> stays pending. The timer fires and its request is answered, which opens the
  panel again. The user now shortens the query to \<open>Pa\<close>: the evaluation consumes the flag
  and returns, and the suggestion stays on display in an open panel under a query of two
  characters.
\<close>

theorem short_query_keeps_suggestions_counterexample:
  "run init [Type ''Par'', Timeout, Type ''Paris'', Settle 0 paris_response,
             Select paris, Timeout, Settle 0 paris_response, Type ''Pa'']
     = Some \<lparr>query = ''Pa'', suggestions = [paris], open = True, error = None,
             justSelectedRef = False, timer = None, effect_query = ''Pa'', inflight = [],
             requests = [''Par'', ''Paris''], selected = [(48, 2)]\<rparr>
   \<and> length (trim ''Pa'') < 3"
proof -
  let ?s1 = "paris_shown\<lparr>justSelectedRef := True, suggestions := [], open := False,
                          selected := [(48, 2)]\<rparr>"
  let ?s2 = "?s1\<lparr>timer := None, inflight := [''Paris''], requests := [''Par'', ''Paris'']\<rparr>"
  let ?s3 = "?s2\<lparr>inflight := [], suggestions := [paris], open := True\<rparr>"
  let ?s4 = "\<lparr>query = ''Pa'', suggestions = [paris], open = True, error = None,
             justSelectedRef = False, timer = None, effect_query = ''Pa'', inflight = [],
             requests = [''Par'', ''Paris''], selected = [(48, 2)]\<rparr>"
  have 1: "step paris_shown (Select paris) = Some ?s1"
    by (simp add: step_def paris_shown_def component_defs) (simp add: paris_def)
  have 2: "step ?s1 Timeout = Some ?s2"
    by (simp add: step_def paris_shown_def component_defs trim_examples)
  have 3: "step ?s2 (Settle 0 paris_response) = Some ?s3"
    by (simp add: step_def paris_shown_def component_defs searchPlaces_paris)
  have 4: "step ?s3 (Type ''Pa'') = Some ?s4"
    by (simp add: step_def paris_shown_def component_defs)
  have "run paris_shown [Select paris, Timeout, Settle 0 paris_response, Type ''Pa''] = Some ?s4"
    by (simp only: run.simps 1 2 3 4 option.case)
  then have "run init ([Type ''Par'', Timeout, Type ''Paris'', Settle 0 paris_response]
                       @ [Select paris, Timeout, Settle 0 paris_response, Type ''Pa'']) = Some ?s4"
    by (simp only: run_append paris_shown_reachable option.case)
  then show ?thesis
    by (simp add: trim_examples)
qed

subsection \<open>A response body that reports an error\<close>

text \<open>
  Claim C10, as the code has it. When the request is fulfilled with a body whose \<open>error\<close>
  field is truthy, \<open>searchPlaces\<close> returns the empty list and does not throw, and
  \<open>fetchSuggestions\<close> then sets no suggestions, opens the panel and shows the message
  \<open>No results found\<close>.
\<close>

theorem searchPlaces_truthy_error_no_results:
  assumes "truthy (data_error b)"
  shows "searchPlaces q (Fulfilled (Some b)) = Inr [] \<and>
         fetchSuggestions_settled s q (Fulfilled (Some b))
           = s\<lparr>suggestions := [], open := True, error := Some ''No results found''\<rparr>"
  using assms by (simp add: searchPlaces_def fetchSuggestions_settled_def)

theorem searchPlaces_truthy_error_no_results_witness:
  "truthy (data_error failed_data) \<and>
   searchPlaces ''Paris'' (Fulfilled (Some failed_data)) = Inr [] \<and>
   fetchSuggestions_settled init ''Paris'' (Fulfilled (Some failed_data))
     = init\<lparr>suggestions := [], open := True, error := Some ''No results found''\<rparr>"
proof -
  have h: "truthy (data_error failed_data)"
    by (simp add: failed_data_def)
  show ?thesis
    using h searchPlaces_truthy_error_no_results [OF h, of "''Paris''" init] by blast
qed

text \<open>
  The claim as worded, for every body that contains an \<open>error\<close> field, fails for a body
  whose \<open>error\<close> field is \<open>null\<close> next to a feature: the test \<open>response.data?.error\<close> is
  false, \<open>searchPlaces\<close> returns the suggestion of the feature, and the component shows it
  without a message.
\<close>

theorem searchPlaces_null_error_counterexample:
  "data_error null_error_data = Some JNull \<and>
   searchPlaces ''Paris'' (Fulfilled (Some null_error_data)) = Inr [paris] \<and>
   fetchSuggestions_settled init ''Paris'' (Fulfilled (Some null_error_data))
     = init\<lparr>suggestions := [paris], open := True\<rparr>"
proof -
  have s: "searchPlaces ''Paris'' (Fulfilled (Some null_error_data)) = Inr [paris]"
    by (simp add: searchPlaces_def trim_examples null_error_data_def paris_feature_def
          to_suggestion_def paris_def)
  show ?thesis
    by (simp add: fetchSuggestions_settled_def s) (simp add: null_error_data_def paris_def init_def)
qed

end
